theory Spec2Isabelle
  imports Complex_Main
begin

section \<open>Price levels and the rank order of a side\<close>

text \<open>
  Both managers store a price level as the two-element array \<^verbatim>\<open>[price, size]\<close> of
  JavaScript numbers. The numbers are modelled as rationals: the finite values of a
  double, on which the sign of \<^verbatim>\<open>a - b\<close> is the sign of the exact difference. The
  values NaN and Infinity are outside the model.
\<close>

type_synonym level = "rat \<times> rat"

text \<open>
  The rank order of a side: asks are ranked by ascending price, bids by descending
  price. \<open>better ascending p q\<close> says that price \<open>p\<close> ranks strictly before \<open>q\<close>.
\<close>

definition better :: "bool \<Rightarrow> rat \<Rightarrow> rat \<Rightarrow> bool" where
  "better ascending p q = (if ascending then p < q else q < p)"

definition rankSorted :: "bool \<Rightarrow> level list \<Rightarrow> bool" where
  "rankSorted ascending xs = sorted_wrt (\<lambda>x y. better ascending (fst x) (fst y)) xs"

definition rankSortedWeak :: "bool \<Rightarrow> level list \<Rightarrow> bool" where
  "rankSortedWeak ascending xs = sorted_wrt (\<lambda>x y. \<not> better ascending (fst y) (fst x)) xs"

section \<open>The array-merge strategy (orderbook.merge.js)\<close>

subsection \<open>mergeSortedUpdates\<close>

text \<open>
  The three \<^verbatim>\<open>while\<close> loops of \<^verbatim>\<open>mergeSortedUpdates\<close>, each a function of the loop
  variables it changes. The indices stay in range wherever an array is read, because
  the loop conditions guard every read.
\<close>

function merge_while1 ::
  "bool \<Rightarrow> level list \<Rightarrow> level list \<Rightarrow> nat \<times> nat \<times> level list \<Rightarrow> nat \<times> nat \<times> level list"
where
  "merge_while1 ascending current updates (i, j, merged) =
     (if i < length current \<and> j < length updates then
        (let cmp = (if ascending then fst (current ! i) - fst (updates ! j)
                    else fst (updates ! j) - fst (current ! i))
         in if cmp < 0 then
              merge_while1 ascending current updates (i + 1, j, merged @ [current ! i])
            else if cmp > 0 then
              merge_while1 ascending current updates
                (i, j + 1, if snd (updates ! j) \<noteq> 0 then merged @ [updates ! j] else merged)
            else
              merge_while1 ascending current updates
                (i + 1, j + 1, if snd (updates ! j) \<noteq> 0 then merged @ [updates ! j] else merged))
      else (i, j, merged))"
  by pat_completeness auto
termination
  by (relation "measure (\<lambda>(ascending, current, updates, i, j, merged).
        (length current - i) + (length updates - j))") auto

function merge_while2 :: "level list \<Rightarrow> nat \<times> level list \<Rightarrow> nat \<times> level list" where
  "merge_while2 current (i, merged) =
     (if i < length current then merge_while2 current (i + 1, merged @ [current ! i])
      else (i, merged))"
  by pat_completeness auto
termination
  by (relation "measure (\<lambda>(current, i, merged). length current - i)") auto

function merge_while3 :: "level list \<Rightarrow> nat \<times> level list \<Rightarrow> nat \<times> level list" where
  "merge_while3 updates (j, merged) =
     (if j < length updates then
        merge_while3 updates
          (j + 1, if snd (updates ! j) \<noteq> 0 then merged @ [updates ! j] else merged)
      else (j, merged))"
  by pat_completeness auto
termination
  by (relation "measure (\<lambda>(updates, j, merged). length updates - j)") auto

declare merge_while1.simps [simp del]
declare merge_while2.simps [simp del]
declare merge_while3.simps [simp del]

definition mergeSortedUpdates :: "level list \<Rightarrow> level list \<Rightarrow> bool \<Rightarrow> level list" where
  "mergeSortedUpdates current updates ascending =
     (case merge_while1 ascending current updates (0, 0, []) of
        (i, j, merged) \<Rightarrow>
          (case merge_while2 current (i, merged) of
             (i', merged') \<Rightarrow> snd (merge_while3 updates (j, merged'))))"

text \<open>
  The batch update as the specification words it (section 4.2): a walk over both
  sequences by rank, where an update is written only when its size is greater than 0.
\<close>

fun applyUpdates :: "bool \<Rightarrow> level list \<Rightarrow> level list \<Rightarrow> level list" where
  "applyUpdates ascending current [] = current"
| "applyUpdates ascending [] (u # us) =
     (if 0 < snd u then u # applyUpdates ascending [] us else applyUpdates ascending [] us)"
| "applyUpdates ascending (c # cs) (u # us) =
     (if better ascending (fst u) (fst c) then
        (if 0 < snd u then u # applyUpdates ascending (c # cs) us
         else applyUpdates ascending (c # cs) us)
      else if fst u = fst c then
        (if 0 < snd u then u # applyUpdates ascending cs us
         else applyUpdates ascending cs us)
      else c # applyUpdates ascending cs (u # us))"


text \<open>
  The same walk written by recursion on the two sequences, with the code's own test
  \<^verbatim>\<open>updates[j][1] !== 0\<close>. It is the bridge between the loops and the statements below.
\<close>

fun merge_list :: "bool \<Rightarrow> level list \<Rightarrow> level list \<Rightarrow> level list" where
  "merge_list ascending current [] = current"
| "merge_list ascending [] updates = filter (\<lambda>u. snd u \<noteq> 0) updates"
| "merge_list ascending (c # cs) (u # us) =
     (if better ascending (fst c) (fst u) then c # merge_list ascending cs (u # us)
      else if better ascending (fst u) (fst c) then
        (if snd u \<noteq> 0 then u # merge_list ascending (c # cs) us
         else merge_list ascending (c # cs) us)
      else
        (if snd u \<noteq> 0 then u # merge_list ascending cs us
         else merge_list ascending cs us))"

subsection \<open>The manager's state\<close>

text \<open>
  One book per instrument: \<^verbatim>\<open>{ bids, asks }\<close>. In orderbook.merge.js the two fields are
  arrays; in orderbook.Btree.js they are \<^verbatim>\<open>RBTree\<close>s, represented here by their in-order
  contents (see below), so that both managers share the record.
\<close>

record book =
  bids :: "level list"
  asks :: "level list"

text \<open>
  The counters of \<^verbatim>\<open>this.stats\<close>. The timing samples (\<^verbatim>\<open>process.hrtime\<close>) are wall-clock
  readings and are left out. The tree manager also keeps \<^verbatim>\<open>bookSize\<close>.
\<close>

record stats =
  snapshotCount :: nat
  deltaCount :: nat
  getOrderBookCount :: nat

record tree_stats = stats +
  bookSize :: nat

record 's manager =
  orderBooks :: "string \<rightharpoonup> book"
  stats :: 's

text \<open>
  The payload \<^verbatim>\<open>data.data\<close> of a feed message: the properties \<^verbatim>\<open>b\<close> and \<^verbatim>\<open>a\<close>, each a list of
  raw \<^verbatim>\<open>[price, size]\<close> pairs or absent. The type \<open>'r\<close> of a raw value and the conversion
  \<^verbatim>\<open>Number\<close> (a JavaScript builtin) are parameters of the model.
\<close>

record 'r event =
  ev_b :: "('r \<times> 'r) list option"
  ev_a :: "('r \<times> 'r) list option"

text \<open>
  The only failure of the source is the runtime's \<^verbatim>\<open>TypeError\<close> on a property access of
  \<^verbatim>\<open>undefined\<close>. \<open>UnknownInstrument\<close> and \<open>NotSynchronized\<close> are the errors that section 7
  of the specification names; no function of the source raises them.
\<close>

datatype error = TypeError | UnknownInstrument | NotSynchronized

definition entries :: "'a list option \<Rightarrow> 'a list" where
  \<comment> \<open>\<^verbatim>\<open>x || []\<close>: an array, also an empty one, is truthy.\<close>
  "entries l = (case l of None \<Rightarrow> [] | Some xs \<Rightarrow> xs)"

definition hasEntries :: "'a list option \<Rightarrow> bool" where
  \<comment> \<open>\<^verbatim>\<open>x?.length > 0\<close>\<close>
  "hasEntries l = (case l of None \<Rightarrow> False | Some xs \<Rightarrow> 0 < length xs)"

definition toLevels :: "('r \<Rightarrow> rat) \<Rightarrow> ('r \<times> 'r) list \<Rightarrow> level list" where
  \<comment> \<open>\<^verbatim>\<open>.map(([p, q]) => [Number(p), Number(q)])\<close>\<close>
  "toLevels Number raw = map (\<lambda>(p, q). (Number p, Number q)) raw"

definition initialize :: "string list \<Rightarrow> 's manager \<Rightarrow> 's manager" where
  "initialize pairs m =
     foldl (\<lambda>m pair. m\<lparr>orderBooks := (orderBooks m)(pair \<mapsto> \<lparr>bids = [], asks = []\<rparr>)\<rparr>) m pairs"

subsection \<open>BybitOrderBookManager\<close>

definition merge_new :: "stats manager" where
  "merge_new =
     \<lparr>orderBooks = Map.empty,
      stats = \<lparr>snapshotCount = 0, deltaCount = 0, getOrderBookCount = 0\<rparr>\<rparr>"

definition merge_processSnapshot ::
  "('r \<Rightarrow> rat) \<Rightarrow> string \<Rightarrow> 'r event \<Rightarrow> stats manager \<Rightarrow> error + stats manager"
where
  "merge_processSnapshot Number pair snapshot m =
     (case orderBooks m pair of
        None \<Rightarrow> Inl TypeError
      | Some orderBook \<Rightarrow>
          (let orderBook1 = orderBook\<lparr>bids := toLevels Number (entries (ev_b snapshot))\<rparr>;
               orderBook2 = orderBook1\<lparr>asks := toLevels Number (entries (ev_a snapshot))\<rparr>
           in Inr (m\<lparr>orderBooks := (orderBooks m)(pair \<mapsto> orderBook2),
                      stats := (stats m)\<lparr>snapshotCount := snapshotCount (stats m) + 1\<rparr>\<rparr>)))"

text \<open>
  \<^verbatim>\<open>processDelta\<close> reads \<^verbatim>\<open>orderBook\<close> only inside the two guarded blocks: for an unknown
  pair it throws exactly when one of the lists is non-empty, and otherwise only counts
  the delta.
\<close>

definition merge_processDelta ::
  "('r \<Rightarrow> rat) \<Rightarrow> string \<Rightarrow> 'r event \<Rightarrow> stats manager \<Rightarrow> error + stats manager"
where
  "merge_processDelta Number pair delta m =
     (case orderBooks m pair of
        None \<Rightarrow>
          (if hasEntries (ev_b delta) \<or> hasEntries (ev_a delta) then Inl TypeError
           else Inr (m\<lparr>stats := (stats m)\<lparr>deltaCount := deltaCount (stats m) + 1\<rparr>\<rparr>))
      | Some orderBook \<Rightarrow>
          (let orderBook1 =
                 (if hasEntries (ev_b delta) then
                    (let bidUpdates = toLevels Number (entries (ev_b delta))
                     in orderBook\<lparr>bids := mergeSortedUpdates (bids orderBook) bidUpdates False\<rparr>)
                  else orderBook);
               orderBook2 =
                 (if hasEntries (ev_a delta) then
                    (let askUpdates = toLevels Number (entries (ev_a delta))
                     in orderBook1\<lparr>asks := mergeSortedUpdates (asks orderBook1) askUpdates True\<rparr>)
                  else orderBook1)
           in Inr (m\<lparr>orderBooks := (orderBooks m)(pair \<mapsto> orderBook2),
                      stats := (stats m)\<lparr>deltaCount := deltaCount (stats m) + 1\<rparr>\<rparr>)))"

text \<open>
  \<^verbatim>\<open>Array.prototype.slice(0, end)\<close> for an integer \<^verbatim>\<open>end\<close>: a negative \<^verbatim>\<open>end\<close> counts from
  the end of the array. \<^verbatim>\<open>getOrderBook\<close> takes the depth as an argument here; a caller that
  omits it passes 200.
\<close>

definition slice0 :: "'a list \<Rightarrow> int \<Rightarrow> 'a list" where
  "slice0 xs stop =
     (let len = int (length xs);
          final = (if stop < 0 then max (len + stop) 0 else min stop len)
      in take (nat final) xs)"

record merge_depth =
  buyOrderBook :: "level list"
  sellOrderBook :: "level list"

definition merge_getOrderBook ::
  "string \<Rightarrow> int \<Rightarrow> stats manager \<Rightarrow> error + (merge_depth \<times> stats manager)"
where
  "merge_getOrderBook pair depth m =
     (case orderBooks m pair of
        None \<Rightarrow> Inl TypeError
      | Some book \<Rightarrow>
          (let result = \<lparr>buyOrderBook = slice0 (bids book) depth,
                         sellOrderBook = slice0 (asks book) depth\<rparr>
           in Inr (result,
                   m\<lparr>stats := (stats m)\<lparr>getOrderBookCount := getOrderBookCount (stats m) + 1\<rparr>\<rparr>)))"

section \<open>The tree strategy (orderbook.Btree.js)\<close>

subsection \<open>The ordered container\<close>

text \<open>
  \<^verbatim>\<open>RBTree\<close> comes from the package bintrees, which is not part of the repository. It is
  modelled by its contract, on the in-order sequence of the stored items: \<^verbatim>\<open>insert\<close>
  places an item by the comparator and leaves the tree as it is when an item that
  compares equal is already stored; \<^verbatim>\<open>find\<close> returns the stored item that compares equal
  to the probe, or \<^verbatim>\<open>null\<close>; \<^verbatim>\<open>remove\<close> deletes the stored item that compares equal to the
  probe, if there is one; \<^verbatim>\<open>clear\<close> empties the tree; the iterator walks the items in
  comparator order; \<^verbatim>\<open>size\<close> is the number of items. The comparator is called as
  \<^verbatim>\<open>comparator(stored, new)\<close> by \<^verbatim>\<open>insert\<close> and as \<^verbatim>\<open>comparator(probe, stored)\<close> by \<^verbatim>\<open>find\<close> and
  \<^verbatim>\<open>remove\<close>.
\<close>

fun rb_insert :: "(level \<Rightarrow> level \<Rightarrow> rat) \<Rightarrow> level \<Rightarrow> level list \<Rightarrow> level list" where
  "rb_insert comparator data [] = [data]"
| "rb_insert comparator data (x # xs) =
     (if comparator x data = 0 then x # xs
      else if comparator x data < 0 then x # rb_insert comparator data xs
      else data # x # xs)"

fun rb_find :: "(level \<Rightarrow> level \<Rightarrow> rat) \<Rightarrow> level \<Rightarrow> level list \<Rightarrow> level option" where
  "rb_find comparator data [] = None"
| "rb_find comparator data (x # xs) =
     (if comparator data x = 0 then Some x else rb_find comparator data xs)"

fun rb_remove :: "(level \<Rightarrow> level \<Rightarrow> rat) \<Rightarrow> level \<Rightarrow> level list \<Rightarrow> level list" where
  "rb_remove comparator data [] = []"
| "rb_remove comparator data (x # xs) =
     (if comparator data x = 0 then xs else x # rb_remove comparator data xs)"

text \<open>The comparators given to the two trees in \<^verbatim>\<open>initialize\<close>.\<close>

definition bidsComparator :: "level \<Rightarrow> level \<Rightarrow> rat" where
  "bidsComparator a b = fst b - fst a"

definition asksComparator :: "level \<Rightarrow> level \<Rightarrow> rat" where
  "asksComparator a b = fst a - fst b"

text \<open>
  The probe \<^verbatim>\<open>[price]\<close> of \<^verbatim>\<open>find\<close> has no size. Both comparators read the price only, so the
  missing component is written 0 here.
\<close>

definition probe :: "rat \<Rightarrow> level" where
  "probe price = (price, 0)"

subsection \<open>OrderBookManager\<close>

definition tree_new :: "tree_stats manager" where
  "tree_new =
     \<lparr>orderBooks = Map.empty,
      stats = \<lparr>snapshotCount = 0, deltaCount = 0, getOrderBookCount = 0, bookSize = 0\<rparr>\<rparr>"

definition tree_load ::
  "('r \<Rightarrow> rat) \<Rightarrow> (level \<Rightarrow> level \<Rightarrow> rat) \<Rightarrow> ('r \<times> 'r) list \<Rightarrow> level list"
where
  \<comment> \<open>\<^verbatim>\<open>clear()\<close>, then \<^verbatim>\<open>forEach(([p, q]) => tree.insert([Number(p), Number(q)]))\<close>\<close>
  "tree_load Number comparator raw =
     foldl (\<lambda>t (p, q). rb_insert comparator (Number p, Number q) t) [] raw"

definition tree_processSnapshot ::
  "('r \<Rightarrow> rat) \<Rightarrow> string \<Rightarrow> 'r event \<Rightarrow> tree_stats manager \<Rightarrow> error + tree_stats manager"
where
  "tree_processSnapshot Number pair snapshot m =
     (case orderBooks m pair of
        None \<Rightarrow> Inl TypeError
      | Some orderBook \<Rightarrow>
          (let orderBook1 =
                 orderBook\<lparr>bids := tree_load Number bidsComparator (entries (ev_b snapshot))\<rparr>;
               orderBook2 =
                 orderBook1\<lparr>asks := tree_load Number asksComparator (entries (ev_a snapshot))\<rparr>
           in Inr (m\<lparr>orderBooks := (orderBooks m)(pair \<mapsto> orderBook2),
                      stats := (stats m)\<lparr>bookSize := length (bids orderBook2),
                                          snapshotCount := snapshotCount (stats m) + 1\<rparr>\<rparr>)))"

text \<open>The body of the \<^verbatim>\<open>forEach\<close> callbacks of \<^verbatim>\<open>processDelta\<close>, the same for both sides.\<close>

definition tree_update ::
  "('r \<Rightarrow> rat) \<Rightarrow> (level \<Rightarrow> level \<Rightarrow> rat) \<Rightarrow> level list \<Rightarrow> 'r \<times> 'r \<Rightarrow> level list"
where
  "tree_update Number comparator t raw =
     (case raw of (p, q) \<Rightarrow>
        (let price = Number p; size = Number q
         in if size = 0 then
              rb_remove comparator
                (price, case rb_find comparator (probe price) t of
                          None \<Rightarrow> 0 | Some e \<Rightarrow> snd e) t
            else
              (let existing = rb_find comparator (probe price) t;
                   t1 = (case existing of None \<Rightarrow> t | Some e \<Rightarrow> rb_remove comparator e t)
               in rb_insert comparator (price, size) t1)))"

text \<open>
  For an unknown pair \<^verbatim>\<open>processDelta\<close> always throws: inside a guarded block, or at the
  latest at \<^verbatim>\<open>orderBook.bids.size\<close>.
\<close>

definition tree_processDelta ::
  "('r \<Rightarrow> rat) \<Rightarrow> string \<Rightarrow> 'r event \<Rightarrow> tree_stats manager \<Rightarrow> error + tree_stats manager"
where
  "tree_processDelta Number pair delta m =
     (case orderBooks m pair of
        None \<Rightarrow> Inl TypeError
      | Some orderBook \<Rightarrow>
          (let orderBook1 =
                 (if hasEntries (ev_b delta) then
                    orderBook\<lparr>bids := foldl (tree_update Number bidsComparator) (bids orderBook)
                                         (entries (ev_b delta))\<rparr>
                  else orderBook);
               orderBook2 =
                 (if hasEntries (ev_a delta) then
                    orderBook1\<lparr>asks := foldl (tree_update Number asksComparator) (asks orderBook1)
                                          (entries (ev_a delta))\<rparr>
                  else orderBook1)
           in Inr (m\<lparr>orderBooks := (orderBooks m)(pair \<mapsto> orderBook2),
                      stats := (stats m)\<lparr>bookSize := length (bids orderBook2),
                                          deltaCount := deltaCount (stats m) + 1\<rparr>\<rparr>)))"

record depthEntry =
  price :: rat
  quantity :: rat

record tree_depth =
  res_bids :: "depthEntry list"
  res_asks :: "depthEntry list"

text \<open>
  The two \<^verbatim>\<open>for\<close> loops of \<^verbatim>\<open>getOrderBook\<close>: \<open>rest\<close> is what the iterator has not yet
  returned, so \<^verbatim>\<open>bid\<close> is its head, or \<^verbatim>\<open>null\<close> when it is empty. The field \<^verbatim>\<open>size\<close> of a result
  entry is named \<open>quantity\<close>; the time stamp \<^verbatim>\<open>ts\<close> is left out.
\<close>

fun tree_collect :: "int \<Rightarrow> int \<Rightarrow> level list \<Rightarrow> depthEntry list \<Rightarrow> depthEntry list" where
  "tree_collect depth i [] out = out"
| "tree_collect depth i (bid # rest) out =
     (if i < depth then
        tree_collect depth (i + 1) rest (out @ [\<lparr>price = fst bid, quantity = snd bid\<rparr>])
      else out)"

definition tree_getOrderBook ::
  "string \<Rightarrow> int \<Rightarrow> tree_stats manager \<Rightarrow> error + (tree_depth \<times> tree_stats manager)"
where
  "tree_getOrderBook pair depth m =
     (case orderBooks m pair of
        None \<Rightarrow> Inl TypeError
      | Some book \<Rightarrow>
          (let result = \<lparr>res_bids = tree_collect depth 0 (bids book) [],
                         res_asks = tree_collect depth 0 (asks book) []\<rparr>
           in Inr (result,
                   m\<lparr>stats := (stats m)\<lparr>getOrderBookCount := getOrderBookCount (stats m) + 1\<rparr>\<rparr>)))"

section \<open>Sequences of operations\<close>

text \<open>
  The feed handler passes each message to \<^verbatim>\<open>processSnapshot\<close> or \<^verbatim>\<open>processDelta\<close> by its type.
  A sequence of messages is applied in order and stops at the first exception.
\<close>

datatype 'r operation = Snapshot "'r event" | Delta "'r event"

fun merge_apply ::
  "('r \<Rightarrow> rat) \<Rightarrow> string \<Rightarrow> 'r operation \<Rightarrow> stats manager \<Rightarrow> error + stats manager"
where
  "merge_apply Number pair (Snapshot e) m = merge_processSnapshot Number pair e m"
| "merge_apply Number pair (Delta e) m = merge_processDelta Number pair e m"

fun merge_applyAll ::
  "('r \<Rightarrow> rat) \<Rightarrow> string \<Rightarrow> 'r operation list \<Rightarrow> stats manager \<Rightarrow> error + stats manager"
where
  "merge_applyAll Number pair [] m = Inr m"
| "merge_applyAll Number pair (x # xs) m =
     (case merge_apply Number pair x m of
        Inl e \<Rightarrow> Inl e
      | Inr m1 \<Rightarrow> merge_applyAll Number pair xs m1)"

fun tree_apply ::
  "('r \<Rightarrow> rat) \<Rightarrow> string \<Rightarrow> 'r operation \<Rightarrow> tree_stats manager \<Rightarrow> error + tree_stats manager"
where
  "tree_apply Number pair (Snapshot e) m = tree_processSnapshot Number pair e m"
| "tree_apply Number pair (Delta e) m = tree_processDelta Number pair e m"

fun tree_applyAll ::
  "('r \<Rightarrow> rat) \<Rightarrow> string \<Rightarrow> 'r operation list \<Rightarrow> tree_stats manager
     \<Rightarrow> error + tree_stats manager"
where
  "tree_applyAll Number pair [] m = Inr m"
| "tree_applyAll Number pair (x # xs) m =
     (case tree_apply Number pair x m of
        Inl e \<Rightarrow> Inl e
      | Inr m1 \<Rightarrow> tree_applyAll Number pair xs m1)"

text \<open>The book of an instrument after an operation, if the operation returned.\<close>

definition bookOf :: "error + 's manager \<Rightarrow> string \<Rightarrow> book option" where
  "bookOf r pair = (case r of Inl e \<Rightarrow> None | Inr m \<Rightarrow> orderBooks m pair)"


section \<open>Notions used by the statements\<close>

text \<open>The comparator of a side, by its rank order.\<close>

definition sideComparator :: "bool \<Rightarrow> level \<Rightarrow> level \<Rightarrow> rat" where
  "sideComparator ascending = (if ascending then asksComparator else bidsComparator)"

text \<open>
  The invariant of a side (specification, section 3): strictly monotonic prices in rank
  order and strictly positive sizes.
\<close>

definition sideInvariant :: "bool \<Rightarrow> level list \<Rightarrow> bool" where
  "sideInvariant ascending xs = (rankSorted ascending xs \<and> (\<forall>l\<in>set xs. 0 < snd l))"

definition bookInvariant :: "book \<Rightarrow> bool" where
  "bookInvariant ob = (sideInvariant False (bids ob) \<and> sideInvariant True (asks ob))"

text \<open>A list of levels sorted by rank, as the specification asks of \<^verbatim>\<open>loadSnapshot\<close>.\<close>

definition sortByRank :: "bool \<Rightarrow> level list \<Rightarrow> level list" where
  "sortByRank ascending xs =
     (if ascending then sort_key fst xs else sort_key (\<lambda>l. - fst l) xs)"

text \<open>
  What the managers rely on in the feed (specification, section 6). The array strategy
  needs every list strictly sorted by rank, with positive sizes in a snapshot and sizes
  that are not negative in a delta; the tree strategy needs the conditions on the sizes
  only.
\<close>

definition merge_wellFormed :: "('r \<Rightarrow> rat) \<Rightarrow> 'r operation \<Rightarrow> bool" where
  "merge_wellFormed Number x =
     (case x of
        Snapshot e \<Rightarrow>
          sideInvariant False (toLevels Number (entries (ev_b e)))
          \<and> sideInvariant True (toLevels Number (entries (ev_a e)))
      | Delta e \<Rightarrow>
          rankSorted False (toLevels Number (entries (ev_b e)))
          \<and> rankSorted True (toLevels Number (entries (ev_a e)))
          \<and> (\<forall>l\<in>set (toLevels Number (entries (ev_b e))). 0 \<le> snd l)
          \<and> (\<forall>l\<in>set (toLevels Number (entries (ev_a e))). 0 \<le> snd l))"

definition tree_wellFormed :: "('r \<Rightarrow> rat) \<Rightarrow> 'r operation \<Rightarrow> bool" where
  "tree_wellFormed Number x =
     (case x of
        Snapshot e \<Rightarrow>
          (\<forall>l\<in>set (toLevels Number (entries (ev_b e))). 0 < snd l)
          \<and> (\<forall>l\<in>set (toLevels Number (entries (ev_a e))). 0 < snd l)
      | Delta e \<Rightarrow>
          (\<forall>l\<in>set (toLevels Number (entries (ev_b e))). 0 \<le> snd l)
          \<and> (\<forall>l\<in>set (toLevels Number (entries (ev_a e))). 0 \<le> snd l))"

text \<open>A message whose two lists are strictly sorted by rank.\<close>

definition sortedEvent :: "('r \<Rightarrow> rat) \<Rightarrow> 'r event \<Rightarrow> bool" where
  "sortedEvent Number e =
     (rankSorted False (toLevels Number (entries (ev_b e)))
      \<and> rankSorted True (toLevels Number (entries (ev_a e))))"

text \<open>A side without the level at a price, for the effect of a size-0 update.\<close>

definition withoutPrice :: "rat \<Rightarrow> level list \<Rightarrow> level list" where
  "withoutPrice p side =
     (if p \<in> fst ` set side then filter (\<lambda>l. fst l \<noteq> p) side else side)"

text \<open>
  Concrete states for the instances below: a manager of each kind that holds the book of
  the specification's first example for ETHUSDT.
\<close>

definition exampleBook :: book where
  "exampleBook = \<lparr>bids = [(100, 5), (99, 3)], asks = [(101, 4), (102, 2)]\<rparr>"

definition exampleSnapshot :: "rat event" where
  "exampleSnapshot = \<lparr>ev_b = Some [(100, 5), (99, 3)], ev_a = Some [(101, 4), (102, 2)]\<rparr>"

definition exampleDelta :: "rat event" where
  "exampleDelta = \<lparr>ev_b = Some [(100, 0), (98, 7)], ev_a = None\<rparr>"

definition merge_example :: "stats manager" where
  "merge_example =
     \<lparr>orderBooks = [''ETHUSDT'' \<mapsto> exampleBook],
      stats = \<lparr>snapshotCount = 1, deltaCount = 0, getOrderBookCount = 0\<rparr>\<rparr>"

definition tree_example :: "tree_stats manager" where
  "tree_example =
     \<lparr>orderBooks = [''ETHUSDT'' \<mapsto> exampleBook],
      stats = \<lparr>snapshotCount = 1, deltaCount = 0, getOrderBookCount = 0, bookSize = 2\<rparr>\<rparr>"

section \<open>The loops of mergeSortedUpdates\<close>

text \<open>
  The second loop appends the rest of \<open>current\<close>, the third the rest of \<open>updates\<close> without
  its size-0 entries; the first loop, followed by the other two, computes \<open>merge_list\<close>.
\<close>

lemma merge_while2_drop:
  "merge_while2 current (i, merged) = (max i (length current), merged @ drop i current)"
proof (induction current "(i, merged)" arbitrary: i merged rule: merge_while2.induct)
  case (1 current i merged)
  show ?case
  proof (cases "i < length current")
    case True
    then show ?thesis
      using "1" by (simp add: merge_while2.simps [of current i merged] Cons_nth_drop_Suc [symmetric])
  next
    case False
    then show ?thesis by (simp add: merge_while2.simps [of current i merged])
  qed
qed

lemma merge_while3_filter:
  "merge_while3 updates (j, merged) =
     (max j (length updates), merged @ filter (\<lambda>u. snd u \<noteq> 0) (drop j updates))"
proof (induction updates "(j, merged)" arbitrary: j merged rule: merge_while3.induct)
  case (1 updates j merged)
  show ?case
  proof (cases "j < length updates")
    case True
    then show ?thesis
      using "1" by (simp add: merge_while3.simps [of updates j merged] Cons_nth_drop_Suc [symmetric])
  next
    case False
    then show ?thesis by (simp add: merge_while3.simps [of updates j merged])
  qed
qed

lemma merge_list_Nil [simp]: "merge_list ascending [] updates = filter (\<lambda>u. snd u \<noteq> 0) updates"
  by (cases updates) simp_all

lemma merge_while1_merge_list:
  "(case merge_while1 ascending current updates (i, j, merged) of
      (i', j', merged') \<Rightarrow>
        merged' @ drop i' current @ filter (\<lambda>u. snd u \<noteq> 0) (drop j' updates))
   = merged @ merge_list ascending (drop i current) (drop j updates)"
proof (induction ascending current updates "(i, j, merged)" arbitrary: i j merged
    rule: merge_while1.induct)
  case (1 ascending current updates i j merged)
  show ?case
  proof (cases "i < length current \<and> j < length updates")
    case True
    then have dc: "drop i current = current ! i # drop (Suc i) current"
      and du: "drop j updates = updates ! j # drop (Suc j) updates"
      by (simp_all add: Cons_nth_drop_Suc)
    define cmp where "cmp = (if ascending then fst (current ! i) - fst (updates ! j)
                    else fst (updates ! j) - fst (current ! i))"
    consider (lt) "cmp < 0" | (gt) "cmp > 0" | (eq) "cmp = 0" by linarith
    then show ?thesis
    proof cases
      case lt
      then have b: "better ascending (fst (current ! i)) (fst (updates ! j))"
        by (auto simp: cmp_def better_def split: if_splits)
      from "1.hyps"(1) [OF True cmp_def lt] True lt b show ?thesis
        by (simp add: merge_while1.simps [of ascending current updates i j merged] dc du
            cmp_def [symmetric])
    next
      case gt
      then have b: "\<not> better ascending (fst (current ! i)) (fst (updates ! j))"
          "better ascending (fst (updates ! j)) (fst (current ! i))"
        by (auto simp: cmp_def better_def split: if_splits)
      from gt have nlt: "\<not> cmp < 0" by simp
      from "1.hyps"(2) [OF True cmp_def nlt gt] True gt nlt b show ?thesis
        by (simp add: merge_while1.simps [of ascending current updates i j merged] dc du
            cmp_def [symmetric])
    next
      case eq
      then have b: "\<not> better ascending (fst (current ! i)) (fst (updates ! j))"
          "\<not> better ascending (fst (updates ! j)) (fst (current ! i))"
        by (auto simp: cmp_def better_def split: if_splits)
      from eq have nlt: "\<not> cmp < 0" and ngt: "\<not> cmp > 0" by simp_all
      from "1.hyps"(3) [OF True cmp_def nlt ngt] True eq b show ?thesis
        by (simp add: merge_while1.simps [of ascending current updates i j merged] dc du
            cmp_def [symmetric])
    qed
  next
    case False
    then show ?thesis
      by (auto simp add: merge_while1.simps [of ascending current updates i j merged] not_less)
  qed
qed

lemma mergeSortedUpdates_merge_list:
  "mergeSortedUpdates current updates ascending = merge_list ascending current updates"
  using merge_while1_merge_list [where ascending=ascending and current=current and updates=updates and i=0 and j=0 and merged="[]"]
  by (simp add: mergeSortedUpdates_def merge_while2_drop merge_while3_filter split: prod.splits)

section \<open>The rank order\<close>

lemma better_irrefl [simp]: "\<not> better ascending p p"
  by (simp add: better_def)

lemma better_asym: "better ascending p q \<Longrightarrow> \<not> better ascending q p"
  by (auto simp: better_def split: if_splits)

lemma better_trans: "better ascending p q \<Longrightarrow> better ascending q r \<Longrightarrow> better ascending p r"
  by (auto simp: better_def split: if_splits)

lemma better_total: "better ascending p q \<or> p = q \<or> better ascending q p"
  by (auto simp: better_def)

lemma rankSorted_Nil [simp]: "rankSorted ascending []"
  by (simp add: rankSorted_def)

lemma rankSorted_Cons:
  "rankSorted ascending (x # xs) \<longleftrightarrow>
     (\<forall>y\<in>set xs. better ascending (fst x) (fst y)) \<and> rankSorted ascending xs"
  by (simp add: rankSorted_def)

lemma rankSortedWeak_Nil [simp]: "rankSortedWeak ascending []"
  by (simp add: rankSortedWeak_def)

lemma rankSortedWeak_Cons:
  "rankSortedWeak ascending (x # xs) \<longleftrightarrow>
     (\<forall>y\<in>set xs. \<not> better ascending (fst y) (fst x)) \<and> rankSortedWeak ascending xs"
  by (simp add: rankSortedWeak_def)

lemma rankSorted_imp_weak: "rankSorted ascending xs \<Longrightarrow> rankSortedWeak ascending xs"
  by (induction xs) (auto simp: rankSorted_Cons rankSortedWeak_Cons dest: better_asym)

lemma rankSorted_filter: "rankSorted ascending xs \<Longrightarrow> rankSorted ascending (filter P xs)"
  by (simp add: rankSorted_def sorted_wrt_filter)

lemma rankSorted_unique:
  "rankSorted ascending xs \<Longrightarrow> rankSorted ascending ys \<Longrightarrow> set xs = set ys \<Longrightarrow> xs = ys"
proof (induction xs arbitrary: ys)
  case Nil
  then show ?case by simp
next
  case (Cons x xs)
  then obtain y ys' where ys: "ys = y # ys'"
    by (cases ys) auto
  have xy: "x = y"
  proof (rule ccontr)
    assume neq: "x \<noteq> y"
    with Cons.prems(3) ys have "x \<in> set ys'" and "y \<in> set xs" by auto
    with Cons.prems(1,2) ys have "better ascending (fst y) (fst x)" "better ascending (fst x) (fst y)"
      by (auto simp: rankSorted_Cons)
    then show False by (auto dest: better_asym)
  qed
  have "x \<notin> set xs" "y \<notin> set ys'"
    using Cons.prems(1,2) ys by (auto simp: rankSorted_Cons)
  with Cons.prems(3) ys xy have "set xs = set ys'" by auto
  with Cons.IH [of ys'] Cons.prems(1,2) ys have "xs = ys'"
    by (simp add: rankSorted_Cons)
  with xy ys show ?case by simp
qed

lemma merge_list_applyUpdates:
  "\<forall>u\<in>set updates. 0 \<le> snd u \<Longrightarrow>
     merge_list ascending current updates = applyUpdates ascending current updates"
proof (induction ascending current updates rule: applyUpdates.induct)
  case (1 ascending current)
  then show ?case by simp
next
  case (2 ascending u us)
  then show ?case by auto
next
  case (3 ascending c cs u us)
  from "3.prems" have nz: "snd u \<noteq> 0 \<longleftrightarrow> 0 < snd u" by auto
  from "3.prems" have rest: "\<forall>u\<in>set us. 0 \<le> snd u" by simp
  consider (ub) "better ascending (fst u) (fst c)" | (eq) "fst u = fst c"
    | (cb) "better ascending (fst c) (fst u)"
    using better_total by blast
  then show ?case
  proof cases
    case ub
    then have "\<not> better ascending (fst c) (fst u)" by (rule better_asym)
    with ub "3.IH"(1,2) rest "3.prems" show ?thesis by (simp add: nz)
  next
    case eq
    with "3.IH"(3,4) rest show ?thesis by (simp add: nz)
  next
    case cb
    then have nb: "\<not> better ascending (fst u) (fst c)" by (rule better_asym)
    from cb have "fst u \<noteq> fst c" by auto
    with cb nb "3.IH"(5) "3.prems" show ?thesis by simp
  qed
qed

lemma set_merge_list:
  "rankSorted ascending current \<Longrightarrow> rankSortedWeak ascending updates \<Longrightarrow>
     set (merge_list ascending current updates) =
       {u \<in> set updates. snd u \<noteq> 0} \<union> {c \<in> set current. fst c \<notin> fst ` set updates}"
proof (induction ascending current updates rule: merge_list.induct)
  case (1 ascending current)
  then show ?case by simp
next
  case (2 ascending v va)
  then show ?case by auto
next
  case (3 ascending c cs u us)
  from "3.prems" have cs: "rankSorted ascending cs" and us: "rankSortedWeak ascending us"
    and c_cs: "\<forall>y\<in>set cs. better ascending (fst c) (fst y)"
    and u_us: "\<forall>y\<in>set us. \<not> better ascending (fst y) (fst u)"
    by (simp_all add: rankSorted_Cons rankSortedWeak_Cons)
  consider (cb) "better ascending (fst c) (fst u)"
    | (ub) "\<not> better ascending (fst c) (fst u)" "better ascending (fst u) (fst c)"
    | (eq) "\<not> better ascending (fst c) (fst u)" "\<not> better ascending (fst u) (fst c)"
    by blast
  then show ?case
  proof cases
    case cb
    have "fst c \<notin> fst ` set (u # us)"
    proof
      assume "fst c \<in> fst ` set (u # us)"
      then obtain y where "y \<in> set (u # us)" "fst y = fst c" by (metis imageE)
      with cb u_us show False by (auto simp: better_def split: if_splits)
    qed
    with cb "3.IH"(1) [OF cb cs "3.prems"(2)] show ?thesis by auto
  next
    case ub
    have "\<forall>x\<in>set (c # cs). fst x \<noteq> fst u"
      using ub c_cs by (auto simp: better_def split: if_splits)
    then have eq: "{x \<in> set (c # cs). fst x \<notin> fst ` set (u # us)} =
        {x \<in> set (c # cs). fst x \<notin> fst ` set us}"
      by auto
    show ?thesis
    proof (cases "snd u = 0")
      case True
      with ub "3.IH"(3) [OF ub(1) ub(2) _ "3.prems"(1) us] eq show ?thesis by auto
    next
      case False
      with ub "3.IH"(2) [OF ub(1) ub(2) _ "3.prems"(1) us] eq show ?thesis by auto
    qed
  next
    case eq
    then have pe: "fst c = fst u" using better_total by blast
    have "\<forall>x\<in>set cs. fst x \<noteq> fst u"
      using pe c_cs by (auto simp: better_def split: if_splits)
    with pe have eq': "{x \<in> set (c # cs). fst x \<notin> fst ` set (u # us)} =
        {x \<in> set cs. fst x \<notin> fst ` set us}"
      by auto
    show ?thesis
    proof (cases "snd u = 0")
      case True
      with eq "3.IH"(5) [OF eq(1) eq(2) _ cs us] eq' show ?thesis by auto
    next
      case False
      with eq "3.IH"(4) [OF eq(1) eq(2) _ cs us] eq' show ?thesis by auto
    qed
  qed
qed

section \<open>The ordered container on rank-sorted sequences\<close>

lemma sideComparator_neg:
  "sideComparator ascending x y < 0 \<longleftrightarrow> better ascending (fst x) (fst y)"
  by (simp add: sideComparator_def asksComparator_def bidsComparator_def better_def)

lemma sideComparator_zero: "sideComparator ascending x y = 0 \<longleftrightarrow> fst x = fst y"
  by (auto simp add: sideComparator_def asksComparator_def bidsComparator_def)

lemma subset_merge_list: "set (merge_list ascending current updates) \<subseteq> set current \<union> set updates"
  by (induction ascending current updates rule: merge_list.induct) auto

lemma merge_list_all:
  "\<forall>y\<in>set current. P y \<Longrightarrow> \<forall>y\<in>set updates. P y \<Longrightarrow>
     \<forall>y\<in>set (merge_list ascending current updates). P y"
  using subset_merge_list [of ascending current updates] by blast

lemma rankSorted_merge_list:
  "rankSorted ascending current \<Longrightarrow> rankSorted ascending updates \<Longrightarrow>
     rankSorted ascending (merge_list ascending current updates)"
proof (induction ascending current updates rule: merge_list.induct)
  case (1 ascending current)
  then show ?case by simp
next
  case (2 ascending v va)
  from "2.prems"(2) show ?case unfolding merge_list_Nil by (rule rankSorted_filter)
next
  case (3 ascending c cs u us)
  from "3.prems" have cs: "rankSorted ascending cs" and us: "rankSorted ascending us"
    and c_cs: "\<forall>y\<in>set cs. better ascending (fst c) (fst y)"
    and u_us: "\<forall>y\<in>set us. better ascending (fst u) (fst y)"
    by (simp_all add: rankSorted_Cons)
  consider (cb) "better ascending (fst c) (fst u)"
    | (ub) "\<not> better ascending (fst c) (fst u)" "better ascending (fst u) (fst c)"
    | (eq) "\<not> better ascending (fst c) (fst u)" "\<not> better ascending (fst u) (fst c)"
    by blast
  then show ?case
  proof cases
    case cb
    have "\<forall>y\<in>set (u # us). better ascending (fst c) (fst y)"
      using u_us cb by (auto dest: better_trans)
    with c_cs
    have "\<forall>y\<in>set (merge_list ascending cs (u # us)). better ascending (fst c) (fst y)"
      by (rule merge_list_all)
    with cb "3.IH"(1) [OF cb cs "3.prems"(2)] show ?thesis
      by (simp add: rankSorted_Cons)
  next
    case ub
    have "\<forall>y\<in>set (c # cs). better ascending (fst u) (fst y)"
      using c_cs ub by (auto dest: better_trans)
    then
    have "\<forall>y\<in>set (merge_list ascending (c # cs) us). better ascending (fst u) (fst y)"
      using u_us by (rule merge_list_all)
    with ub "3.IH"(2,3) [OF ub(1) ub(2) _ "3.prems"(1) us] show ?thesis
      by (simp add: rankSorted_Cons)
  next
    case eq
    then have pe: "fst c = fst u" using better_total by blast
    from c_cs pe have "\<forall>y\<in>set cs. better ascending (fst u) (fst y)" by simp
    then
    have "\<forall>y\<in>set (merge_list ascending cs us). better ascending (fst u) (fst y)"
      using u_us by (rule merge_list_all)
    with eq "3.IH"(4,5) [OF eq(1) eq(2) _ cs us] show ?thesis
      by (simp add: rankSorted_Cons)
  qed
qed

lemma merge_list_delete:
  "rankSorted ascending current \<Longrightarrow>
     merge_list ascending current [(p, 0)] = filter (\<lambda>l. fst l \<noteq> p) current"
proof (induction current)
  case Nil
  then show ?case by simp
next
  case (Cons c cs)
  then have cs: "rankSorted ascending cs"
    and c_cs: "\<forall>y\<in>set cs. better ascending (fst c) (fst y)"
    by (simp_all add: rankSorted_Cons)
  consider (cb) "better ascending (fst c) p"
    | (ub) "\<not> better ascending (fst c) p" "better ascending p (fst c)"
    | (eq) "\<not> better ascending (fst c) p" "\<not> better ascending p (fst c)"
    by blast
  then show ?case
  proof cases
    case cb
    then have "fst c \<noteq> p" by auto
    with cb Cons.IH [OF cs] show ?thesis by simp
  next
    case ub
    then have "\<forall>y\<in>set (c # cs). fst y \<noteq> p"
      using c_cs by (auto dest: better_trans)
    then have "filter (\<lambda>l. fst l \<noteq> p) (c # cs) = c # cs"
      by (simp only: filter_id_conv) 
    with ub show ?thesis by simp
  next
    case eq
    then have pe: "fst c = p" using better_total by blast
    with c_cs have "\<forall>y\<in>set cs. fst y \<noteq> p" by auto
    then have "filter (\<lambda>l. fst l \<noteq> p) cs = cs"
      by (simp only: filter_id_conv)
    with eq pe show ?thesis by simp
  qed
qed

lemma rb_find_None:
  "rb_find (sideComparator ascending) d t = None \<longleftrightarrow> fst d \<notin> fst ` set t"
  by (induction t) (auto simp: sideComparator_zero)

lemma rb_find_Some:
  "rb_find (sideComparator ascending) d t = Some e \<Longrightarrow> e \<in> set t \<and> fst e = fst d"
  by (induction t) (auto simp: sideComparator_zero split: if_splits)

lemma rb_remove_filter:
  "rankSorted ascending t \<Longrightarrow>
     rb_remove (sideComparator ascending) d t = filter (\<lambda>l. fst l \<noteq> fst d) t"
proof (induction t)
  case Nil
  then show ?case by simp
next
  case (Cons x xs)
  then have xs: "rankSorted ascending xs"
    and x_xs: "\<forall>y\<in>set xs. better ascending (fst x) (fst y)"
    by (simp_all add: rankSorted_Cons)
  show ?case
  proof (cases "fst d = fst x")
    case True
    with x_xs have "\<forall>y\<in>set xs. fst y \<noteq> fst d" by auto
    then have "filter (\<lambda>l. fst l \<noteq> fst d) xs = xs"
      by (simp only: filter_id_conv)
    with True show ?thesis by (simp add: sideComparator_zero)
  next
    case False
    with Cons.IH [OF xs] show ?thesis by (auto simp add: sideComparator_zero)
  qed
qed

lemma set_rb_insert:
  "rankSorted ascending t \<Longrightarrow>
     set (rb_insert (sideComparator ascending) d t) =
       (if fst d \<in> fst ` set t then set t else insert d (set t))"
proof (induction t)
  case Nil
  then show ?case by simp
next
  case (Cons x xs)
  then have xs: "rankSorted ascending xs"
    and x_xs: "\<forall>y\<in>set xs. better ascending (fst x) (fst y)"
    by (simp_all add: rankSorted_Cons)
  consider (eq) "fst x = fst d" | (xb) "fst x \<noteq> fst d" "better ascending (fst x) (fst d)"
    | (db) "fst x \<noteq> fst d" "\<not> better ascending (fst x) (fst d)"
    by blast
  then show ?case
  proof cases
    case eq
    then show ?thesis by (simp add: sideComparator_zero)
  next
    case xb
    with Cons.IH [OF xs] show ?thesis
      by (auto simp add: sideComparator_zero sideComparator_neg)
  next
    case db
    then have dx: "better ascending (fst d) (fst x)" using better_total by blast
    with x_xs have "\<forall>y\<in>set xs. better ascending (fst d) (fst y)" by (auto dest: better_trans)
    then have "fst d \<notin> fst ` set xs" by auto
    with db show ?thesis
      by (simp add: sideComparator_zero sideComparator_neg)
  qed
qed

lemma rankSorted_rb_insert:
  "rankSorted ascending t \<Longrightarrow> rankSorted ascending (rb_insert (sideComparator ascending) d t)"
proof (induction t)
  case Nil
  then show ?case by (simp add: rankSorted_Cons)
next
  case (Cons x xs)
  then have xs: "rankSorted ascending xs"
    and x_xs: "\<forall>y\<in>set xs. better ascending (fst x) (fst y)"
    by (simp_all add: rankSorted_Cons)
  consider (eq) "fst x = fst d" | (xb) "fst x \<noteq> fst d" "better ascending (fst x) (fst d)"
    | (db) "fst x \<noteq> fst d" "\<not> better ascending (fst x) (fst d)"
    by blast
  then show ?case
  proof cases
    case eq
    with Cons.prems show ?thesis by (simp add: sideComparator_zero)
  next
    case xb
    have "\<forall>y\<in>set (rb_insert (sideComparator ascending) d xs). better ascending (fst x) (fst y)"
      using x_xs xb by (auto simp: set_rb_insert [OF xs] split: if_splits)
    with xb Cons.IH [OF xs] show ?thesis
      by (simp add: sideComparator_zero sideComparator_neg rankSorted_Cons)
  next
    case db
    then have dx: "better ascending (fst d) (fst x)" using better_total by blast
    with x_xs have "\<forall>y\<in>set xs. better ascending (fst d) (fst y)" by (auto dest: better_trans)
    with db dx Cons.prems show ?thesis
      by (simp add: sideComparator_zero sideComparator_neg rankSorted_Cons)
  qed
qed

lemma tree_update_zero:
  "rankSorted ascending t \<Longrightarrow> Number q = 0 \<Longrightarrow>
     tree_update Number (sideComparator ascending) t (p, q) = filter (\<lambda>l. fst l \<noteq> Number p) t"
  by (simp add: tree_update_def rb_remove_filter)

lemma set_tree_update:
  assumes "rankSorted ascending t"
  shows "set (tree_update Number (sideComparator ascending) t (p, q)) =
           {l \<in> set t. fst l \<noteq> Number p} \<union> (if Number q \<noteq> 0 then {(Number p, Number q)} else {})"
proof (cases "Number q = 0")
  case True
  with assms show ?thesis by (simp add: tree_update_zero)
next
  case False
  show ?thesis
  proof (cases "rb_find (sideComparator ascending) (probe (Number p)) t")
    case None
    then have "Number p \<notin> fst ` set t" by (simp add: rb_find_None probe_def)
    then have "{l \<in> set t. fst l \<noteq> Number p} = set t" by force
    with None False \<open>Number p \<notin> fst ` set t\<close> assms show ?thesis
      by (simp add: tree_update_def set_rb_insert Let_def)
  next
    case (Some e)
    then have e: "fst e = Number p" using rb_find_Some [OF Some] by (simp add: probe_def)
    have notin: "Number p \<notin> fst ` set (filter (\<lambda>l. fst l \<noteq> Number p) t)" by auto
    have "rankSorted ascending (filter (\<lambda>l. fst l \<noteq> Number p) t)"
      using assms by (rule rankSorted_filter)
    from set_rb_insert [OF this, of "(Number p, Number q)"] notin
    have "set (rb_insert (sideComparator ascending) (Number p, Number q)
               (filter (\<lambda>l. fst l \<noteq> Number p) t)) =
          insert (Number p, Number q) {l \<in> set t. fst l \<noteq> Number p}"
      by simp
    with Some False e assms show ?thesis
      by (simp add: tree_update_def rb_remove_filter Let_def)
  qed
qed

lemma rankSorted_tree_update:
  assumes "rankSorted ascending t"
  shows "rankSorted ascending (tree_update Number (sideComparator ascending) t raw)"
proof -
  obtain p q where raw: "raw = (p, q)" by (cases raw)
  show ?thesis
  proof (cases "Number q = 0")
    case True
    with assms raw show ?thesis by (simp add: tree_update_zero rankSorted_filter)
  next
    case False
    with assms raw show ?thesis
      by (auto simp add: tree_update_def rb_remove_filter rankSorted_filter Let_def
          intro!: rankSorted_rb_insert split: option.splits)
  qed
qed

section \<open>Batches of tree updates, snapshot loads and sorting\<close>

lemma toLevels_Nil [simp]: "toLevels Number [] = []"
  by (simp add: toLevels_def)

lemma toLevels_Cons [simp]:
  "toLevels Number ((p, q) # raw) = (Number p, Number q) # toLevels Number raw"
  by (simp add: toLevels_def)

lemma rankSorted_tree_updates:
  "rankSorted ascending t \<Longrightarrow>
     rankSorted ascending (foldl (tree_update Number (sideComparator ascending)) t raw)"
  by (induction raw arbitrary: t) (simp_all add: rankSorted_tree_update)

lemma set_tree_updates:
  "rankSorted ascending t \<Longrightarrow> rankSorted ascending (toLevels Number raw) \<Longrightarrow>
     set (foldl (tree_update Number (sideComparator ascending)) t raw) =
       {u \<in> set (toLevels Number raw). snd u \<noteq> 0}
       \<union> {c \<in> set t. fst c \<notin> fst ` set (toLevels Number raw)}"
proof (induction raw arbitrary: t)
  case Nil
  then show ?case by simp
next
  case (Cons r raw)
  obtain p q where r: "r = (p, q)" by (cases r)
  let ?t1 = "tree_update Number (sideComparator ascending) t (p, q)"
  from Cons.prems(2) r have raw: "rankSorted ascending (toLevels Number raw)"
    and fresh: "\<forall>y\<in>set (toLevels Number raw). better ascending (Number p) (fst y)"
    by (simp_all add: rankSorted_Cons)
  from fresh have notin: "Number p \<notin> fst ` set (toLevels Number raw)" by auto
  have t1: "rankSorted ascending ?t1"
    using Cons.prems(1) by (rule rankSorted_tree_update)
  have "set (foldl (tree_update Number (sideComparator ascending)) ?t1 raw) =
       {u \<in> set (toLevels Number raw). snd u \<noteq> 0}
       \<union> {c \<in> set ?t1. fst c \<notin> fst ` set (toLevels Number raw)}"
    using t1 raw by (rule Cons.IH)
  also have "{c \<in> set ?t1. fst c \<notin> fst ` set (toLevels Number raw)} =
      (if Number q \<noteq> 0 then {(Number p, Number q)} else {})
      \<union> {c \<in> set t. fst c \<notin> fst ` set (toLevels Number (r # raw))}"
    using fresh by (auto simp: set_tree_update [OF Cons.prems(1)] r)
  finally show ?case
    by (auto simp: r)
qed

lemma tree_updates_merge:
  assumes "rankSorted ascending t" and "rankSorted ascending (toLevels Number raw)"
  shows "foldl (tree_update Number (sideComparator ascending)) t raw =
           mergeSortedUpdates t (toLevels Number raw) ascending"
proof -
  have "rankSorted ascending (foldl (tree_update Number (sideComparator ascending)) t raw)"
    using assms(1) by (rule rankSorted_tree_updates)
  moreover have "rankSorted ascending (merge_list ascending t (toLevels Number raw))"
    using assms by (rule rankSorted_merge_list)
  moreover have "set (foldl (tree_update Number (sideComparator ascending)) t raw) =
      set (merge_list ascending t (toLevels Number raw))"
    using set_tree_updates [OF assms] set_merge_list [OF assms(1) rankSorted_imp_weak [OF assms(2)]]
    by simp
  ultimately show ?thesis
    unfolding mergeSortedUpdates_merge_list by (rule rankSorted_unique)
qed

lemma rankSorted_inserts:
  "rankSorted ascending t \<Longrightarrow>
     rankSorted ascending
       (foldl (\<lambda>t (p, q). rb_insert (sideComparator ascending) (Number p, Number q) t) t raw)"
  by (induction raw arbitrary: t) (auto simp add: rankSorted_rb_insert)

lemma set_inserts:
  "rankSorted ascending t \<Longrightarrow> distinct (map fst (toLevels Number raw)) \<Longrightarrow>
   fst ` set (toLevels Number raw) \<inter> fst ` set t = {} \<Longrightarrow>
     set (foldl (\<lambda>t (p, q). rb_insert (sideComparator ascending) (Number p, Number q) t) t raw)
       = set t \<union> set (toLevels Number raw)"
proof (induction raw arbitrary: t)
  case Nil
  then show ?case by simp
next
  case (Cons r raw)
  obtain p q where r: "r = (p, q)" by (cases r)
  let ?t1 = "rb_insert (sideComparator ascending) (Number p, Number q) t"
  from Cons.prems(3) r have notin: "Number p \<notin> fst ` set t" by auto
  then have t1: "set ?t1 = insert (Number p, Number q) (set t)"
    by (simp add: set_rb_insert [OF Cons.prems(1)])
  have s1: "rankSorted ascending ?t1"
    using Cons.prems(1) by (rule rankSorted_rb_insert)
  from Cons.prems(2) r have d: "distinct (map fst (toLevels Number raw))"
    and pn: "Number p \<notin> fst ` set (toLevels Number raw)"
    by (simp_all add: image_image [symmetric] del: image_image) 
  from Cons.prems(3) r pn t1 have disj: "fst ` set (toLevels Number raw) \<inter> fst ` set ?t1 = {}"
    by auto
  from Cons.IH [OF s1 d disj] t1 show ?case
    by (simp add: r)
qed

lemma rankSorted_distinct: "rankSorted ascending xs \<Longrightarrow> distinct (map fst xs)"
  by (induction xs) (auto simp: rankSorted_Cons)

lemma rankSorted_tree_load:
  "rankSorted ascending (tree_load Number (sideComparator ascending) raw)"
  unfolding tree_load_def by (rule rankSorted_inserts) simp

lemma set_tree_load:
  "distinct (map fst (toLevels Number raw)) \<Longrightarrow>
     set (tree_load Number (sideComparator ascending) raw) = set (toLevels Number raw)"
  unfolding tree_load_def using set_inserts [of ascending "[]" Number raw] by simp

lemma tree_load_sorted:
  assumes "rankSorted ascending (toLevels Number raw)"
  shows "tree_load Number (sideComparator ascending) raw = toLevels Number raw"
  using rankSorted_tree_load assms set_tree_load [OF rankSorted_distinct [OF assms]]
  by (rule rankSorted_unique)

lemma set_sortByRank [simp]: "set (sortByRank ascending xs) = set xs"
  by (simp add: sortByRank_def)

lemma rankSorted_sortByRank:
  assumes "distinct (map fst xs)"
  shows "rankSorted ascending (sortByRank ascending xs)"
proof (cases ascending)
  case True
  have "distinct (map fst (sort_key fst xs))"
    using assms by (simp add: distinct_map)
  then have "sorted_wrt (<) (map fst (sort_key fst xs))"
    by (simp add: strict_sorted_iff)
  with True show ?thesis
    by (simp add: rankSorted_def sortByRank_def better_def sorted_wrt_map)
next
  case False
  have inj: "inj_on (\<lambda>l. - fst l) (set xs)"
    using assms by (auto simp: distinct_map inj_on_def)
  have "distinct (map (\<lambda>l. - fst l) (sort_key (\<lambda>l. - fst l) xs))"
    using assms inj by (simp add: distinct_map)
  then have "sorted_wrt (<) (map (\<lambda>l. - fst l) (sort_key (\<lambda>l. - fst l) xs))"
    by (simp add: strict_sorted_iff)
  with False show ?thesis
    by (simp add: rankSorted_def sortByRank_def better_def sorted_wrt_map)
qed

lemma sortByRank_sorted:
  assumes "rankSortedWeak ascending xs"
  shows "sortByRank ascending xs = xs"
proof (cases ascending)
  case True
  with assms have "sorted (map fst xs)"
    by (simp add: rankSortedWeak_def better_def sorted_wrt_map not_less)
  with True show ?thesis by (simp add: sortByRank_def sort_key_id_if_sorted)
next
  case False
  with assms have "sorted (map (\<lambda>l. - fst l) xs)"
    by (simp add: rankSortedWeak_def better_def sorted_wrt_map not_less)
  with False show ?thesis by (simp add: sortByRank_def sort_key_id_if_sorted)
qed

lemma tree_load_sortByRank:
  assumes "distinct (map fst (toLevels Number raw))"
  shows "tree_load Number (sideComparator ascending) raw = sortByRank ascending (toLevels Number raw)"
  using rankSorted_tree_load rankSorted_sortByRank [OF assms]
proof (rule rankSorted_unique)
  show "set (tree_load Number (sideComparator ascending) raw) =
      set (sortByRank ascending (toLevels Number raw))"
    using assms by (simp add: set_tree_load)
qed

section \<open>The batch update of the array-merge strategy\<close>

text \<open>
  Claim C3. For a current sequence sorted by rank (with one level per price, as a side
  has) and an update batch sorted by rank, with sizes that are not negative,
  \<^verbatim>\<open>mergeSortedUpdates\<close> returns exactly the walk of the specification: an update
  ranked before the current level is inserted iff its size is greater than 0; an update
  at the price of the current level overwrites it if its size is greater than 0 and
  deletes it if its size is 0; a current level ranked before the update is kept; what
  is left of the current sequence is kept. So the result holds the updates of positive
  size and the current levels whose price no update names.
\<close>

theorem mergeSortedUpdates_applyUpdates:
  assumes "rankSorted ascending current"
    and "rankSortedWeak ascending updates"
    and "\<forall>u\<in>set updates. 0 \<le> snd u"
  shows "mergeSortedUpdates current updates ascending = applyUpdates ascending current updates
     \<and> set (mergeSortedUpdates current updates ascending) =
         {u \<in> set updates. 0 < snd u} \<union> {c \<in> set current. fst c \<notin> fst ` set updates}"
proof -
  from assms(3) have "{u \<in> set updates. snd u \<noteq> 0} = {u \<in> set updates. 0 < snd u}"
    by force
  with set_merge_list [OF assms(1,2)] merge_list_applyUpdates [OF assms(3)]
  show ?thesis
    by (simp add: mergeSortedUpdates_merge_list)
qed

theorem mergeSortedUpdates_applyUpdates_witness:
  "rankSorted True [(99, 3), (101, 4), (103, 1)]
   \<and> rankSortedWeak True [(98, 7), (99, 0), (100, 2), (101, 9)]
   \<and> list_all (\<lambda>u. 0 \<le> snd u) [(98, 7), (99, 0), (100, 2), (101, 9 :: rat)]
   \<and> mergeSortedUpdates [(99, 3), (101, 4), (103, 1)] [(98, 7), (99, 0), (100, 2), (101, 9)] True
       = [(98, 7), (100, 2), (101, 9), (103, 1)]"
proof -
  have h1: "rankSorted True [(99, 3), (101, 4), (103, 1)]"
    by (simp add: rankSorted_def better_def)
  have h2: "rankSortedWeak True [(98, 7), (99, 0), (100, 2), (101, 9)]"
    by (simp add: rankSortedWeak_def better_def)
  have h3: "\<forall>u\<in>set [(98, 7), (99, 0), (100, 2), (101, 9 :: rat)]. 0 \<le> snd u"
    by simp
  from mergeSortedUpdates_applyUpdates [OF h1 h2 h3] h1 h2 h3 show ?thesis
    by (simp add: better_def)
qed

section \<open>The operations on the book of an instrument\<close>

lemma bidsComparator_side: "bidsComparator = sideComparator False"
  by (simp add: sideComparator_def)

lemma asksComparator_side: "asksComparator = sideComparator True"
  by (simp add: sideComparator_def)

lemma hasEntries_iff: "hasEntries l \<longleftrightarrow> l \<noteq> None \<and> l \<noteq> Some []"
  by (cases l) (simp_all add: hasEntries_def)

lemma entries_empty: "\<not> hasEntries l \<Longrightarrow> entries l = []"
  by (cases l) (simp_all add: hasEntries_def entries_def)

lemma bookOf_merge_processDelta:
  "orderBooks m pair = Some ob \<Longrightarrow>
     bookOf (merge_processDelta Number pair d m) pair =
       Some \<lparr>bids = mergeSortedUpdates (bids ob) (toLevels Number (entries (ev_b d))) False,
             asks = mergeSortedUpdates (asks ob) (toLevels Number (entries (ev_a d))) True\<rparr>"
  by (simp add: bookOf_def merge_processDelta_def Let_def entries_empty
      mergeSortedUpdates_merge_list)

lemma bookOf_tree_processDelta:
  "orderBooks m pair = Some ob \<Longrightarrow>
     bookOf (tree_processDelta Number pair d m) pair =
       Some \<lparr>bids = foldl (tree_update Number bidsComparator) (bids ob) (entries (ev_b d)),
             asks = foldl (tree_update Number asksComparator) (asks ob) (entries (ev_a d))\<rparr>"
  by (simp add: bookOf_def tree_processDelta_def Let_def entries_empty)

lemma bookOf_merge_processSnapshot:
  "orderBooks m pair = Some ob \<Longrightarrow>
     bookOf (merge_processSnapshot Number pair s m) pair =
       Some \<lparr>bids = toLevels Number (entries (ev_b s)),
             asks = toLevels Number (entries (ev_a s))\<rparr>"
  by (simp add: bookOf_def merge_processSnapshot_def Let_def)

lemma bookOf_tree_processSnapshot:
  "orderBooks m pair = Some ob \<Longrightarrow>
     bookOf (tree_processSnapshot Number pair s m) pair =
       Some \<lparr>bids = tree_load Number bidsComparator (entries (ev_b s)),
             asks = tree_load Number asksComparator (entries (ev_a s))\<rparr>"
  by (simp add: bookOf_def tree_processSnapshot_def Let_def)

lemma bookOf_other_merge_processDelta:
  "orderBooks m pair = Some ob \<Longrightarrow> other \<noteq> pair \<Longrightarrow>
     bookOf (merge_processDelta Number pair d m) other = orderBooks m other"
  by (simp add: bookOf_def merge_processDelta_def Let_def)

lemma bookOf_other_tree_processDelta:
  "orderBooks m pair = Some ob \<Longrightarrow> other \<noteq> pair \<Longrightarrow>
     bookOf (tree_processDelta Number pair d m) other = orderBooks m other"
  by (simp add: bookOf_def tree_processDelta_def Let_def)

lemma filter_price_absent:
  "p \<notin> fst ` set side \<Longrightarrow> filter (\<lambda>l. fst l \<noteq> p) side = side"
  by (induction side) auto

lemma withoutPrice_filter: "withoutPrice p side = filter (\<lambda>l. fst l \<noteq> p) side"
  by (simp add: withoutPrice_def filter_price_absent)

section \<open>Updates of size 0\<close>

text \<open>
  The array strategy finds the level of an update by walking the side in rank order. On
  a side that is not sorted by rank, as the array \<^verbatim>\<open>processSnapshot\<close> stores it from an
  unsorted snapshot, a size-0 update at a price that the side holds can pass the level
  by: here the ask at 101 stays.
\<close>

theorem size_zero_update_counterexample:
  "bookOf (merge_processSnapshot id ''ETHUSDT''
      \<lparr>ev_b = None, ev_a = Some [(102, 1), (101, 1)]\<rparr>
      (initialize [''ETHUSDT''] merge_new)) ''ETHUSDT''
     = Some \<lparr>bids = [], asks = [(102, 1), (101, 1)]\<rparr>
   \<and> (101 :: rat) \<in> fst ` set [(102, 1 :: rat), (101, 1)]
   \<and> bookOf (merge_applyAll id ''ETHUSDT''
      [Snapshot \<lparr>ev_b = None, ev_a = Some [(102, 1), (101, 1)]\<rparr>,
       Delta \<lparr>ev_b = None, ev_a = Some [(101, 0)]\<rparr>]
      (initialize [''ETHUSDT''] merge_new)) ''ETHUSDT''
     = Some \<lparr>bids = [], asks = [(102, 1), (101, 1)]\<rparr>
   \<and> withoutPrice 101 [(102, 1), (101, 1)] = [(102, 1)]"
  by (simp add: bookOf_def merge_processSnapshot_def merge_processDelta_def initialize_def
      merge_new_def hasEntries_def entries_def toLevels_def mergeSortedUpdates_merge_list
      Let_def better_def withoutPrice_def)

text \<open>
  Claim C6, as the code has it. In a book whose sides are strictly sorted by rank, with
  one level per price, an update with size 0 at a price that the side does not hold
  leaves the side as it is (the operation returns, it is not an error), and at a price
  that the side holds it removes the level at that price and no other. This holds for
  both strategies and both sides.
\<close>

theorem size_zero_update:
  assumes "orderBooks m pair = Some ob" and "orderBooks t pair = Some ob"
    and "rankSorted False (bids ob)" and "rankSorted True (asks ob)"
    and "Number q = 0"
  shows "bookOf (merge_processDelta Number pair \<lparr>ev_b = Some [(p, q)], ev_a = None\<rparr> m) pair
           = Some (ob\<lparr>bids := withoutPrice (Number p) (bids ob)\<rparr>)
       \<and> bookOf (merge_processDelta Number pair \<lparr>ev_b = None, ev_a = Some [(p, q)]\<rparr> m) pair
           = Some (ob\<lparr>asks := withoutPrice (Number p) (asks ob)\<rparr>)
       \<and> bookOf (tree_processDelta Number pair \<lparr>ev_b = Some [(p, q)], ev_a = None\<rparr> t) pair
           = Some (ob\<lparr>bids := withoutPrice (Number p) (bids ob)\<rparr>)
       \<and> bookOf (tree_processDelta Number pair \<lparr>ev_b = None, ev_a = Some [(p, q)]\<rparr> t) pair
           = Some (ob\<lparr>asks := withoutPrice (Number p) (asks ob)\<rparr>)"
proof -
  have mb: "mergeSortedUpdates (bids ob) [(Number p, 0)] False = withoutPrice (Number p) (bids ob)"
    using assms(3) by (simp add: mergeSortedUpdates_merge_list merge_list_delete withoutPrice_filter)
  have ma: "mergeSortedUpdates (asks ob) [(Number p, 0)] True = withoutPrice (Number p) (asks ob)"
    using assms(4) by (simp add: mergeSortedUpdates_merge_list merge_list_delete withoutPrice_filter)
  have tb: "tree_update Number bidsComparator (bids ob) (p, q) = withoutPrice (Number p) (bids ob)"
    using assms(3,5) by (simp add: bidsComparator_side tree_update_zero withoutPrice_filter)
  have ta: "tree_update Number asksComparator (asks ob) (p, q) = withoutPrice (Number p) (asks ob)"
    using assms(4,5) by (simp add: asksComparator_side tree_update_zero withoutPrice_filter)
  have e: "mergeSortedUpdates (bids ob) [] False = bids ob"
    "mergeSortedUpdates (asks ob) [] True = asks ob"
    by (simp_all add: mergeSortedUpdates_merge_list)
  show ?thesis
    using assms(5) mb ma tb ta e
    by (simp add: bookOf_merge_processDelta [OF assms(1)] bookOf_tree_processDelta [OF assms(2)]
        entries_def)
qed

theorem size_zero_update_witness:
  "orderBooks merge_example ''ETHUSDT'' = Some exampleBook
   \<and> orderBooks tree_example ''ETHUSDT'' = Some exampleBook
   \<and> rankSorted False (bids exampleBook) \<and> rankSorted True (asks exampleBook)
   \<and> bookOf (merge_processDelta id ''ETHUSDT'' \<lparr>ev_b = Some [(99, 0)], ev_a = None\<rparr>
         merge_example) ''ETHUSDT''
       = Some \<lparr>bids = [(100, 5)], asks = [(101, 4), (102, 2)]\<rparr>
   \<and> bookOf (merge_processDelta id ''ETHUSDT'' \<lparr>ev_b = None, ev_a = Some [(99, 0)]\<rparr>
         merge_example) ''ETHUSDT''
       = Some exampleBook
   \<and> bookOf (tree_processDelta id ''ETHUSDT'' \<lparr>ev_b = Some [(99, 0)], ev_a = None\<rparr>
         tree_example) ''ETHUSDT''
       = Some \<lparr>bids = [(100, 5)], asks = [(101, 4), (102, 2)]\<rparr>
   \<and> bookOf (tree_processDelta id ''ETHUSDT'' \<lparr>ev_b = None, ev_a = Some [(99, 0)]\<rparr>
         tree_example) ''ETHUSDT''
       = Some exampleBook"
proof -
  have h1: "orderBooks merge_example ''ETHUSDT'' = Some exampleBook"
    by (simp add: merge_example_def)
  have h2: "orderBooks tree_example ''ETHUSDT'' = Some exampleBook"
    by (simp add: tree_example_def)
  have h3: "rankSorted False (bids exampleBook)"
    by (simp add: exampleBook_def rankSorted_def better_def)
  have h4: "rankSorted True (asks exampleBook)"
    by (simp add: exampleBook_def rankSorted_def better_def)
  have h5: "id (0 :: rat) = 0"
    by simp
  from size_zero_update [where Number = id and q = 0 and p = 99, OF h1 h2 h3 h4 h5]
    h1 h2 h3 h4
  show ?thesis
    by (simp add: withoutPrice_def exampleBook_def)
qed

section \<open>The frame of a delta\<close>

lemma bookOf_Some_iff:
  "bookOf r pair = Some ob \<longleftrightarrow> (\<exists>m. r = Inr m \<and> orderBooks m pair = Some ob)"
  by (cases r) (simp_all add: bookOf_def)

text \<open>
  Claim C10. For an initialized instrument, \<^verbatim>\<open>processDelta\<close> returns, and the bid side
  afterwards is the one that the delta's bid list alone produces, which in turn leaves
  the ask side as it was; the same holds with the sides exchanged. A side whose list is
  absent or empty is unchanged, and so is the book of every other instrument. This
  holds for both strategies.
\<close>

theorem processDelta_frame:
  assumes "orderBooks m pair = Some ob" and "orderBooks t pair = Some tob"
  shows "(\<exists>ob1 obB obA.
            bookOf (merge_processDelta Number pair d m) pair = Some ob1
          \<and> bookOf (merge_processDelta Number pair (d\<lparr>ev_a := None\<rparr>) m) pair = Some obB
          \<and> bookOf (merge_processDelta Number pair (d\<lparr>ev_b := None\<rparr>) m) pair = Some obA
          \<and> bids ob1 = bids obB \<and> asks obB = asks ob
          \<and> asks ob1 = asks obA \<and> bids obA = bids ob
          \<and> (ev_b d = None \<or> ev_b d = Some [] \<longrightarrow> bids ob1 = bids ob)
          \<and> (ev_a d = None \<or> ev_a d = Some [] \<longrightarrow> asks ob1 = asks ob))
       \<and> (\<exists>ob1 obB obA.
            bookOf (tree_processDelta Number pair d t) pair = Some ob1
          \<and> bookOf (tree_processDelta Number pair (d\<lparr>ev_a := None\<rparr>) t) pair = Some obB
          \<and> bookOf (tree_processDelta Number pair (d\<lparr>ev_b := None\<rparr>) t) pair = Some obA
          \<and> bids ob1 = bids obB \<and> asks obB = asks tob
          \<and> asks ob1 = asks obA \<and> bids obA = bids tob
          \<and> (ev_b d = None \<or> ev_b d = Some [] \<longrightarrow> bids ob1 = bids tob)
          \<and> (ev_a d = None \<or> ev_a d = Some [] \<longrightarrow> asks ob1 = asks tob))
       \<and> (\<forall>other. other \<noteq> pair \<longrightarrow>
            bookOf (merge_processDelta Number pair d m) other = orderBooks m other
          \<and> bookOf (tree_processDelta Number pair d t) other = orderBooks t other)"
proof -
  have e: "mergeSortedUpdates xs [] asc = xs" for xs asc
    by (simp add: mergeSortedUpdates_merge_list)
  have n: "entries None = ([] :: ('a \<times> 'a) list)"
    by (simp add: entries_def)
  have b: "ev_b d = None \<or> ev_b d = Some [] \<Longrightarrow> entries (ev_b d) = []"
    by (auto simp: entries_def)
  have a: "ev_a d = None \<or> ev_a d = Some [] \<Longrightarrow> entries (ev_a d) = []"
    by (auto simp: entries_def)
  have "\<exists>ob1 obB obA.
            bookOf (merge_processDelta Number pair d m) pair = Some ob1
          \<and> bookOf (merge_processDelta Number pair (d\<lparr>ev_a := None\<rparr>) m) pair = Some obB
          \<and> bookOf (merge_processDelta Number pair (d\<lparr>ev_b := None\<rparr>) m) pair = Some obA
          \<and> bids ob1 = bids obB \<and> asks obB = asks ob
          \<and> asks ob1 = asks obA \<and> bids obA = bids ob
          \<and> (ev_b d = None \<or> ev_b d = Some [] \<longrightarrow> bids ob1 = bids ob)
          \<and> (ev_a d = None \<or> ev_a d = Some [] \<longrightarrow> asks ob1 = asks ob)"
    using a b by (auto simp add: bookOf_merge_processDelta [OF assms(1)] e n)
  moreover have "\<exists>ob1 obB obA.
            bookOf (tree_processDelta Number pair d t) pair = Some ob1
          \<and> bookOf (tree_processDelta Number pair (d\<lparr>ev_a := None\<rparr>) t) pair = Some obB
          \<and> bookOf (tree_processDelta Number pair (d\<lparr>ev_b := None\<rparr>) t) pair = Some obA
          \<and> bids ob1 = bids obB \<and> asks obB = asks tob
          \<and> asks ob1 = asks obA \<and> bids obA = bids tob
          \<and> (ev_b d = None \<or> ev_b d = Some [] \<longrightarrow> bids ob1 = bids tob)
          \<and> (ev_a d = None \<or> ev_a d = Some [] \<longrightarrow> asks ob1 = asks tob)"
    using a b by (auto simp add: bookOf_tree_processDelta [OF assms(2)] n)
  moreover have "\<forall>other. other \<noteq> pair \<longrightarrow>
            bookOf (merge_processDelta Number pair d m) other = orderBooks m other
          \<and> bookOf (tree_processDelta Number pair d t) other = orderBooks t other"
    by (simp add: bookOf_other_merge_processDelta [OF assms(1)]
        bookOf_other_tree_processDelta [OF assms(2)])
  ultimately show ?thesis by blast
qed

theorem processDelta_frame_witness:
  "orderBooks merge_example ''ETHUSDT'' = Some exampleBook
   \<and> orderBooks tree_example ''ETHUSDT'' = Some exampleBook
   \<and> map_option asks (bookOf (merge_processDelta id ''ETHUSDT''
         \<lparr>ev_b = Some [(100, 0), (98, 7)], ev_a = None\<rparr> merge_example) ''ETHUSDT'')
       = Some (asks exampleBook)
   \<and> map_option asks (bookOf (tree_processDelta id ''ETHUSDT''
         \<lparr>ev_b = Some [(100, 0), (98, 7)], ev_a = None\<rparr> tree_example) ''ETHUSDT'')
       = Some (asks exampleBook)
   \<and> bookOf (merge_processDelta id ''ETHUSDT''
         \<lparr>ev_b = Some [(100, 0), (98, 7)], ev_a = None\<rparr> merge_example) ''BTCUSDT'' = None"
proof -
  have h1: "orderBooks merge_example ''ETHUSDT'' = Some exampleBook"
    by (simp add: merge_example_def)
  have h2: "orderBooks tree_example ''ETHUSDT'' = Some exampleBook"
    by (simp add: tree_example_def)
  have h3: "orderBooks merge_example ''BTCUSDT'' = None"
    by (simp add: merge_example_def)
  from processDelta_frame [where Number = id and
      d = "\<lparr>ev_b = Some [(100, 0), (98, 7)], ev_a = None\<rparr>", OF h1 h2] h1 h2 h3
  show ?thesis by auto
qed

section \<open>Applying a snapshot twice\<close>

text \<open>
  Claim C8. For an initialized instrument, applying the same snapshot twice in a row
  gives the same books as applying it once, in both strategies. (The counter
  \<^verbatim>\<open>snapshotCount\<close> of the statistics counts both calls.)
\<close>

theorem processSnapshot_twice:
  assumes "orderBooks m pair = Some ob" and "orderBooks t pair = Some tob"
  shows "(\<exists>m1 m2. merge_processSnapshot Number pair s m = Inr m1
            \<and> merge_processSnapshot Number pair s m1 = Inr m2
            \<and> orderBooks m2 = orderBooks m1)
       \<and> (\<exists>t1 t2. tree_processSnapshot Number pair s t = Inr t1
            \<and> tree_processSnapshot Number pair s t1 = Inr t2
            \<and> orderBooks t2 = orderBooks t1)"
  using assms
  by (simp add: merge_processSnapshot_def tree_processSnapshot_def Let_def)

theorem processSnapshot_twice_witness:
  "orderBooks merge_example ''ETHUSDT'' = Some exampleBook
   \<and> orderBooks tree_example ''ETHUSDT'' = Some exampleBook
   \<and> (\<exists>m1 m2. merge_processSnapshot id ''ETHUSDT'' \<lparr>ev_b = Some [(50, 1)], ev_a = None\<rparr>
                  merge_example = Inr m1
         \<and> merge_processSnapshot id ''ETHUSDT'' \<lparr>ev_b = Some [(50, 1)], ev_a = None\<rparr> m1 = Inr m2
         \<and> orderBooks m2 = orderBooks m1)
   \<and> (\<exists>t1 t2. tree_processSnapshot id ''ETHUSDT'' \<lparr>ev_b = Some [(50, 1)], ev_a = None\<rparr>
                  tree_example = Inr t1
         \<and> tree_processSnapshot id ''ETHUSDT'' \<lparr>ev_b = Some [(50, 1)], ev_a = None\<rparr> t1 = Inr t2
         \<and> orderBooks t2 = orderBooks t1)"
proof -
  have h1: "orderBooks merge_example ''ETHUSDT'' = Some exampleBook"
    by (simp add: merge_example_def)
  have h2: "orderBooks tree_example ''ETHUSDT'' = Some exampleBook"
    by (simp add: tree_example_def)
  from processSnapshot_twice [where Number = id and
      s = "\<lparr>ev_b = Some [(50, 1)], ev_a = None\<rparr>", OF h1 h2] h1 h2
  show ?thesis by simp
qed

section \<open>The depth query\<close>





section \<open>Loading a snapshot\<close>

lemma subset_inserts:
  "rankSorted ascending t \<Longrightarrow>
     set (foldl (\<lambda>t (p, q). rb_insert (sideComparator ascending) (Number p, Number q) t) t raw)
       \<subseteq> set t \<union> set (toLevels Number raw)"
proof (induction raw arbitrary: t)
  case Nil
  then show ?case by simp
next
  case (Cons r raw)
  obtain p q where r: "r = (p, q)" by (cases r)
  let ?t1 = "rb_insert (sideComparator ascending) (Number p, Number q) t"
  have "set ?t1 \<subseteq> insert (Number p, Number q) (set t)"
    by (auto simp add: set_rb_insert [OF Cons.prems] split: if_splits)
  with Cons.IH [OF rankSorted_rb_insert [OF Cons.prems], of "(Number p, Number q)"]
  show ?case by (auto simp: r)
qed

lemma subset_tree_load:
  "set (tree_load Number (sideComparator ascending) raw) \<subseteq> set (toLevels Number raw)"
  unfolding tree_load_def using subset_inserts [of ascending "[]" Number raw] by simp

lemma tree_load_Nil [simp]: "tree_load Number comparator [] = []"
  by (simp add: tree_load_def)

lemma entries_None [simp]: "entries None = []"
  by (simp add: entries_def)

text \<open>
  The array strategy stores the parsed list as it comes: an input that is not sorted by
  rank stays unsorted.
\<close>

theorem processSnapshot_unsorted_counterexample:
  "bookOf (merge_processSnapshot id ''ETHUSDT'' \<lparr>ev_b = None, ev_a = Some [(102, 1), (101, 1)]\<rparr>
      (initialize [''ETHUSDT''] merge_new)) ''ETHUSDT''
     = Some \<lparr>bids = [], asks = [(102, 1), (101, 1)]\<rparr>
   \<and> sortByRank True (toLevels id [(102, 1), (101, 1)]) = [(101, 1), (102, 1)]"
  by (simp add: bookOf_def merge_processSnapshot_def initialize_def merge_new_def entries_def
      toLevels_def sortByRank_def)

text \<open>
  Claim C5, as the code has it. For an initialized instrument \<^verbatim>\<open>processSnapshot\<close> returns
  and replaces each side wholesale by the parsed input: the array strategy stores the
  parsed list in input order, which is the list sorted by rank whenever the input is
  sorted by rank; the tree strategy stores only parsed input levels, and they are the
  input sorted by rank whenever the prices of the input are distinct. A side whose list
  is absent becomes empty, and no level from before the snapshot survives.
\<close>

theorem processSnapshot_replaces:
  assumes "orderBooks m pair = Some ob" and "orderBooks t pair = Some tob"
  shows "(\<exists>ob1. bookOf (merge_processSnapshot Number pair s m) pair = Some ob1
            \<and> bids ob1 = toLevels Number (entries (ev_b s))
            \<and> asks ob1 = toLevels Number (entries (ev_a s))
            \<and> (rankSortedWeak False (toLevels Number (entries (ev_b s))) \<longrightarrow>
                 bids ob1 = sortByRank False (toLevels Number (entries (ev_b s))))
            \<and> (rankSortedWeak True (toLevels Number (entries (ev_a s))) \<longrightarrow>
                 asks ob1 = sortByRank True (toLevels Number (entries (ev_a s))))
            \<and> (ev_b s = None \<longrightarrow> bids ob1 = [])
            \<and> (ev_a s = None \<longrightarrow> asks ob1 = []))
       \<and> (\<exists>tob1. bookOf (tree_processSnapshot Number pair s t) pair = Some tob1
            \<and> set (bids tob1) \<subseteq> set (toLevels Number (entries (ev_b s)))
            \<and> set (asks tob1) \<subseteq> set (toLevels Number (entries (ev_a s)))
            \<and> (distinct (map fst (toLevels Number (entries (ev_b s)))) \<longrightarrow>
                 bids tob1 = sortByRank False (toLevels Number (entries (ev_b s))))
            \<and> (distinct (map fst (toLevels Number (entries (ev_a s)))) \<longrightarrow>
                 asks tob1 = sortByRank True (toLevels Number (entries (ev_a s))))
            \<and> (ev_b s = None \<longrightarrow> bids tob1 = [])
            \<and> (ev_a s = None \<longrightarrow> asks tob1 = []))"
proof -
  have "\<exists>ob1. bookOf (merge_processSnapshot Number pair s m) pair = Some ob1
            \<and> bids ob1 = toLevels Number (entries (ev_b s))
            \<and> asks ob1 = toLevels Number (entries (ev_a s))
            \<and> (rankSortedWeak False (toLevels Number (entries (ev_b s))) \<longrightarrow>
                 bids ob1 = sortByRank False (toLevels Number (entries (ev_b s))))
            \<and> (rankSortedWeak True (toLevels Number (entries (ev_a s))) \<longrightarrow>
                 asks ob1 = sortByRank True (toLevels Number (entries (ev_a s))))
            \<and> (ev_b s = None \<longrightarrow> bids ob1 = [])
            \<and> (ev_a s = None \<longrightarrow> asks ob1 = [])"
    by (simp add: bookOf_merge_processSnapshot [OF assms(1)] sortByRank_sorted)
  moreover have "\<exists>tob1. bookOf (tree_processSnapshot Number pair s t) pair = Some tob1
            \<and> set (bids tob1) \<subseteq> set (toLevels Number (entries (ev_b s)))
            \<and> set (asks tob1) \<subseteq> set (toLevels Number (entries (ev_a s)))
            \<and> (distinct (map fst (toLevels Number (entries (ev_b s)))) \<longrightarrow>
                 bids tob1 = sortByRank False (toLevels Number (entries (ev_b s))))
            \<and> (distinct (map fst (toLevels Number (entries (ev_a s)))) \<longrightarrow>
                 asks tob1 = sortByRank True (toLevels Number (entries (ev_a s))))
            \<and> (ev_b s = None \<longrightarrow> bids tob1 = [])
            \<and> (ev_a s = None \<longrightarrow> asks tob1 = [])"
    by (simp add: bookOf_tree_processSnapshot [OF assms(2)] bidsComparator_side
        asksComparator_side subset_tree_load tree_load_sortByRank)
  ultimately show ?thesis by blast
qed

theorem processSnapshot_replaces_witness:
  "orderBooks merge_example ''ETHUSDT'' = Some exampleBook
   \<and> orderBooks tree_example ''ETHUSDT'' = Some exampleBook
   \<and> bookOf (merge_processSnapshot id ''ETHUSDT'' \<lparr>ev_b = Some [(50, 1), (49, 2)], ev_a = None\<rparr>
         merge_example) ''ETHUSDT''
       = Some \<lparr>bids = [(50, 1), (49, 2)], asks = []\<rparr>
   \<and> bookOf (tree_processSnapshot id ''ETHUSDT'' \<lparr>ev_b = Some [(49, 2), (50, 1)], ev_a = None\<rparr>
         tree_example) ''ETHUSDT''
       = Some \<lparr>bids = [(50, 1), (49, 2)], asks = []\<rparr>"
proof -
  have h1: "orderBooks merge_example ''ETHUSDT'' = Some exampleBook"
    by (simp add: merge_example_def)
  have h2: "orderBooks tree_example ''ETHUSDT'' = Some exampleBook"
    by (simp add: tree_example_def)
  have m: "\<And>r. (\<exists>ob1. r = Some ob1 \<and> bids ob1 = [(50, 1), (49, 2)] \<and> asks ob1 = [])
      \<Longrightarrow> r = Some \<lparr>bids = [(50, 1), (49, 2)], asks = []\<rparr>"
    by auto
  from processSnapshot_replaces [where Number = id and
      s = "\<lparr>ev_b = Some [(50, 1), (49, 2)], ev_a = None\<rparr>", OF h1 h2]
  have a: "bookOf (merge_processSnapshot id ''ETHUSDT''
      \<lparr>ev_b = Some [(50, 1), (49, 2)], ev_a = None\<rparr> merge_example) ''ETHUSDT''
       = Some \<lparr>bids = [(50, 1), (49, 2)], asks = []\<rparr>"
    by (intro m) (auto simp add: entries_def)
  from processSnapshot_replaces [where Number = id and
      s = "\<lparr>ev_b = Some [(49, 2), (50, 1)], ev_a = None\<rparr>", OF h1 h2]
  have b: "bookOf (tree_processSnapshot id ''ETHUSDT''
      \<lparr>ev_b = Some [(49, 2), (50, 1)], ev_a = None\<rparr> tree_example) ''ETHUSDT''
       = Some \<lparr>bids = [(50, 1), (49, 2)], asks = []\<rparr>"
    by (intro m) (auto simp add: entries_def sortByRank_def)
  from a b h1 h2 show ?thesis by simp
qed

section \<open>Unknown instruments\<close>

lemma orderBooks_initialize:
  "orderBooks (initialize pairs m) pair =
     (if pair \<in> set pairs then Some \<lparr>bids = [], asks = []\<rparr> else orderBooks m pair)"
  unfolding initialize_def
  by (induction pairs arbitrary: m) auto

text \<open>
  For an identifier that was never initialized the array strategy's \<^verbatim>\<open>processSnapshot\<close>
  throws the runtime's \<^verbatim>\<open>TypeError\<close>, not an \<open>UnknownInstrument\<close> failure, and its
  \<^verbatim>\<open>processDelta\<close> returns normally when both lists are absent.
\<close>

theorem unknown_instrument_counterexample:
  "merge_processSnapshot id ''BTCUSDT'' \<lparr>ev_b = Some [(100, 5)], ev_a = None\<rparr>
      (initialize [''ETHUSDT''] merge_new) = Inl TypeError
   \<and> merge_processSnapshot id ''BTCUSDT'' \<lparr>ev_b = Some [(100, 5)], ev_a = None\<rparr>
      (initialize [''ETHUSDT''] merge_new) \<noteq> Inl UnknownInstrument
   \<and> merge_processDelta id ''BTCUSDT'' \<lparr>ev_b = None, ev_a = None\<rparr>
      (initialize [''ETHUSDT''] merge_new)
     = Inr ((initialize [''ETHUSDT''] merge_new)
         \<lparr>stats := \<lparr>snapshotCount = 0, deltaCount = 1, getOrderBookCount = 0\<rparr>\<rparr>)"
  by (simp add: merge_processSnapshot_def merge_processDelta_def orderBooks_initialize
      merge_new_def hasEntries_def initialize_def)

text \<open>
  Claim C7, as the code has it. For an identifier that was never passed to
  \<^verbatim>\<open>initialize\<close>, the calls fail with the \<^verbatim>\<open>TypeError\<close> of the lookup of \<^verbatim>\<open>undefined\<close>:
  \<^verbatim>\<open>processSnapshot\<close> and \<^verbatim>\<open>getOrderBook\<close> in both strategies, \<^verbatim>\<open>processDelta\<close> of the tree
  strategy, and \<^verbatim>\<open>processDelta\<close> of the array strategy when the delta has a non-empty
  list. The exception is raised before any write, so the manager is as it was.
\<close>

theorem unknown_instrument_TypeError:
  assumes "orderBooks m pair = None" and "orderBooks t pair = None"
  shows "merge_processSnapshot Number pair s m = Inl TypeError
       \<and> tree_processSnapshot Number pair s t = Inl TypeError
       \<and> merge_getOrderBook pair k m = Inl TypeError
       \<and> tree_getOrderBook pair k t = Inl TypeError
       \<and> tree_processDelta Number pair d t = Inl TypeError
       \<and> (hasEntries (ev_b d) \<or> hasEntries (ev_a d) \<longrightarrow>
            merge_processDelta Number pair d m = Inl TypeError)"
  using assms
  by (simp add: merge_processSnapshot_def tree_processSnapshot_def merge_getOrderBook_def
      tree_getOrderBook_def tree_processDelta_def merge_processDelta_def)

theorem unknown_instrument_TypeError_witness:
  "orderBooks (initialize [''ETHUSDT''] merge_new) ''BTCUSDT'' = None
   \<and> orderBooks (initialize [''ETHUSDT''] tree_new) ''BTCUSDT'' = None
   \<and> merge_processSnapshot id ''BTCUSDT'' \<lparr>ev_b = Some [(100, 5)], ev_a = None\<rparr>
        (initialize [''ETHUSDT''] merge_new) = Inl TypeError
   \<and> tree_processSnapshot id ''BTCUSDT'' \<lparr>ev_b = Some [(100, 5)], ev_a = None\<rparr>
        (initialize [''ETHUSDT''] tree_new) = Inl TypeError
   \<and> merge_getOrderBook ''BTCUSDT'' 200 (initialize [''ETHUSDT''] merge_new) = Inl TypeError
   \<and> tree_getOrderBook ''BTCUSDT'' 200 (initialize [''ETHUSDT''] tree_new) = Inl TypeError
   \<and> tree_processDelta id ''BTCUSDT'' \<lparr>ev_b = Some [(100, 5)], ev_a = None\<rparr>
        (initialize [''ETHUSDT''] tree_new) = Inl TypeError
   \<and> hasEntries (ev_b \<lparr>ev_b = Some [(100, 5 :: rat)], ev_a = None\<rparr>)
   \<and> merge_processDelta id ''BTCUSDT'' \<lparr>ev_b = Some [(100, 5)], ev_a = None\<rparr>
        (initialize [''ETHUSDT''] merge_new) = Inl TypeError"
proof -
  have h1: "orderBooks (initialize [''ETHUSDT''] merge_new) ''BTCUSDT'' = None"
    by (simp add: orderBooks_initialize merge_new_def)
  have h2: "orderBooks (initialize [''ETHUSDT''] tree_new) ''BTCUSDT'' = None"
    by (simp add: orderBooks_initialize tree_new_def)
  have h3: "hasEntries (ev_b \<lparr>ev_b = Some [(100, 5 :: rat)], ev_a = None\<rparr>)"
    by (simp add: hasEntries_def)
  from unknown_instrument_TypeError [where Number = id and
      s = "\<lparr>ev_b = Some [(100, 5)], ev_a = None\<rparr>" and
      d = "\<lparr>ev_b = Some [(100, 5)], ev_a = None\<rparr>" and k = 200, OF h1 h2] h1 h2 h3
  show ?thesis by simp
qed

section \<open>A delta before the first snapshot\<close>

text \<open>
  Neither manager records whether a snapshot has been applied: a delta for an
  initialized instrument is applied to its empty sides.
\<close>

theorem delta_before_snapshot_counterexample:
  "orderBooks (initialize [''ETHUSDT''] merge_new) ''ETHUSDT'' = Some \<lparr>bids = [], asks = []\<rparr>
   \<and> bookOf (merge_processDelta id ''ETHUSDT'' \<lparr>ev_b = Some [(50, 1)], ev_a = None\<rparr>
        (initialize [''ETHUSDT''] merge_new)) ''ETHUSDT''
      = Some \<lparr>bids = [(50, 1)], asks = []\<rparr>
   \<and> merge_processDelta id ''ETHUSDT'' \<lparr>ev_b = Some [(50, 1)], ev_a = None\<rparr>
        (initialize [''ETHUSDT''] merge_new) \<noteq> Inl NotSynchronized"
  by (simp add: bookOf_def merge_processDelta_def orderBooks_initialize hasEntries_def
      entries_def toLevels_def mergeSortedUpdates_merge_list Let_def)

text \<open>
  Claim C4, as the code has it. \<^verbatim>\<open>processDelta\<close> for an initialized instrument before any
  snapshot does not fail; it applies the delta to the empty book. With the array
  strategy each side becomes the parsed entries of non-zero size of its list, in input
  order; with the tree strategy it becomes the same list whenever the list is strictly
  sorted by rank.
\<close>

theorem delta_before_snapshot:
  assumes "pair \<in> set pairs"
  shows "bookOf (merge_processDelta Number pair d (initialize pairs merge_new)) pair
           = Some \<lparr>bids = filter (\<lambda>u. snd u \<noteq> 0) (toLevels Number (entries (ev_b d))),
                   asks = filter (\<lambda>u. snd u \<noteq> 0) (toLevels Number (entries (ev_a d)))\<rparr>
       \<and> (\<exists>tob1. bookOf (tree_processDelta Number pair d (initialize pairs tree_new)) pair
                     = Some tob1
            \<and> (rankSorted False (toLevels Number (entries (ev_b d))) \<longrightarrow>
                 bids tob1 = filter (\<lambda>u. snd u \<noteq> 0) (toLevels Number (entries (ev_b d))))
            \<and> (rankSorted True (toLevels Number (entries (ev_a d))) \<longrightarrow>
                 asks tob1 = filter (\<lambda>u. snd u \<noteq> 0) (toLevels Number (entries (ev_a d)))))"
proof -
  from assms
  have m: "orderBooks (initialize pairs merge_new) pair = Some \<lparr>bids = [], asks = []\<rparr>"
    and t: "orderBooks (initialize pairs tree_new) pair = Some \<lparr>bids = [], asks = []\<rparr>"
    by (simp_all add: orderBooks_initialize)
  have e: "rankSorted asc us \<Longrightarrow>
      foldl (tree_update Number (sideComparator asc)) [] raw = filter (\<lambda>u. snd u \<noteq> 0) us"
    if "us = toLevels Number raw" for asc us raw
    using that tree_updates_merge [of asc "[]" Number raw]
    by (simp add: mergeSortedUpdates_merge_list)
  show ?thesis
    by (simp add: bookOf_merge_processDelta [OF m] bookOf_tree_processDelta [OF t]
        mergeSortedUpdates_merge_list bidsComparator_side asksComparator_side e)
qed

theorem delta_before_snapshot_witness:
  "''ETHUSDT'' \<in> set [''ETHUSDT'']
   \<and> bookOf (merge_processDelta id ''ETHUSDT'' \<lparr>ev_b = Some [(50, 1), (49, 0)], ev_a = None\<rparr>
        (initialize [''ETHUSDT''] merge_new)) ''ETHUSDT''
      = Some \<lparr>bids = [(50, 1)], asks = []\<rparr>
   \<and> rankSorted False (toLevels id [(50, 1), (49, 0)])
   \<and> bookOf (tree_processDelta id ''ETHUSDT'' \<lparr>ev_b = Some [(50, 1), (49, 0)], ev_a = None\<rparr>
        (initialize [''ETHUSDT''] tree_new)) ''ETHUSDT''
      = Some \<lparr>bids = [(50, 1)], asks = []\<rparr>"
proof -
  have h1: "''ETHUSDT'' \<in> set [''ETHUSDT'']"
    by simp
  have h2: "rankSorted False (toLevels id [(50, 1), (49, 0)])"
    by (simp add: rankSorted_def better_def)
  have r: "\<And>r. (\<exists>ob1. r = Some ob1 \<and> bids ob1 = [(50, 1)] \<and> asks ob1 = [])
      \<Longrightarrow> r = Some \<lparr>bids = [(50, 1)], asks = []\<rparr>"
    by auto
  note inst = delta_before_snapshot [where Number = id and
      d = "\<lparr>ev_b = Some [(50, 1), (49, 0)], ev_a = None\<rparr>", OF h1]
  from inst have a: "bookOf (merge_processDelta id ''ETHUSDT''
        \<lparr>ev_b = Some [(50, 1), (49, 0)], ev_a = None\<rparr>
        (initialize [''ETHUSDT''] merge_new)) ''ETHUSDT''
      = Some \<lparr>bids = [(50, 1)], asks = []\<rparr>"
    by (simp add: entries_def)
  from inst h2 have b: "bookOf (tree_processDelta id ''ETHUSDT''
        \<lparr>ev_b = Some [(50, 1), (49, 0)], ev_a = None\<rparr>
        (initialize [''ETHUSDT''] tree_new)) ''ETHUSDT''
      = Some \<lparr>bids = [(50, 1)], asks = []\<rparr>"
    by (intro r) (auto simp add: entries_def)
  from a b h1 h2 show ?thesis by simp
qed

section \<open>The invariant of the sides\<close>

lemma sideInvariant_merge_list:
  assumes "sideInvariant ascending current" and "rankSorted ascending updates"
    and "\<forall>l\<in>set updates. 0 \<le> snd l"
  shows "sideInvariant ascending (merge_list ascending current updates)"
proof -
  from assms(1) have cur: "rankSorted ascending current" and pos: "\<forall>l\<in>set current. 0 < snd l"
    by (simp_all add: sideInvariant_def)
  have "\<forall>l\<in>set (merge_list ascending current updates). 0 < snd l"
    using set_merge_list [OF cur rankSorted_imp_weak [OF assms(2)]] pos assms(3)
    by (auto simp: less_le)
  with rankSorted_merge_list [OF cur assms(2)] show ?thesis
    by (simp add: sideInvariant_def)
qed

lemma sideInvariant_tree_update:
  assumes "sideInvariant ascending t" and "0 \<le> Number q"
  shows "sideInvariant ascending (tree_update Number (sideComparator ascending) t (p, q))"
proof -
  from assms(1) have t: "rankSorted ascending t" and pos: "\<forall>l\<in>set t. 0 < snd l"
    by (simp_all add: sideInvariant_def)
  have "\<forall>l\<in>set (tree_update Number (sideComparator ascending) t (p, q)). 0 < snd l"
    using pos assms(2) by (auto simp: set_tree_update [OF t] less_le split: if_splits)
  with rankSorted_tree_update [OF t] show ?thesis
    by (simp add: sideInvariant_def)
qed

lemma sideInvariant_tree_updates:
  "sideInvariant ascending t \<Longrightarrow> \<forall>l\<in>set (toLevels Number raw). 0 \<le> snd l \<Longrightarrow>
     sideInvariant ascending (foldl (tree_update Number (sideComparator ascending)) t raw)"
proof (induction raw arbitrary: t)
  case Nil
  then show ?case by simp
next
  case (Cons r raw)
  obtain p q where r: "r = (p, q)" by (cases r)
  from Cons.prems(2) r have q: "0 \<le> Number q"
    and rest: "\<forall>l\<in>set (toLevels Number raw). 0 \<le> snd l"
    by simp_all
  have "sideInvariant ascending (tree_update Number (sideComparator ascending) t (p, q))"
    using Cons.prems(1) q by (rule sideInvariant_tree_update)
  from Cons.IH [OF this rest] show ?case
    by (simp add: r)
qed

lemma sideInvariant_tree_load:
  "\<forall>l\<in>set (toLevels Number raw). 0 < snd l \<Longrightarrow>
     sideInvariant ascending (tree_load Number (sideComparator ascending) raw)"
  using subset_tree_load [of Number ascending raw]
  by (auto simp add: sideInvariant_def rankSorted_tree_load)

lemma sideInvariant_Nil [simp]: "sideInvariant ascending []"
  by (simp add: sideInvariant_def)

lemma merge_apply_invariant:
  assumes "orderBooks m pair = Some ob" and "bookInvariant ob" and "merge_wellFormed Number x"
  shows "\<exists>m1 ob1. merge_apply Number pair x m = Inr m1 \<and> orderBooks m1 pair = Some ob1
           \<and> bookInvariant ob1"
proof (cases x)
  case (Snapshot e)
  with assms(3) bookOf_merge_processSnapshot [OF assms(1), of Number e] show ?thesis
    by (auto simp add: bookOf_Some_iff merge_wellFormed_def bookInvariant_def)
next
  case (Delta e)
  with assms(2,3) bookOf_merge_processDelta [OF assms(1), of Number e] show ?thesis
    by (auto simp add: bookOf_Some_iff merge_wellFormed_def bookInvariant_def
        mergeSortedUpdates_merge_list sideInvariant_merge_list)
qed

lemma tree_apply_invariant:
  assumes "orderBooks t pair = Some ob" and "bookInvariant ob" and "tree_wellFormed Number x"
  shows "\<exists>t1 ob1. tree_apply Number pair x t = Inr t1 \<and> orderBooks t1 pair = Some ob1
           \<and> bookInvariant ob1"
proof (cases x)
  case (Snapshot e)
  with assms(3) bookOf_tree_processSnapshot [OF assms(1), of Number e] show ?thesis
    by (auto simp add: bookOf_Some_iff tree_wellFormed_def bookInvariant_def
        bidsComparator_side asksComparator_side sideInvariant_tree_load)
next
  case (Delta e)
  with assms(2,3) bookOf_tree_processDelta [OF assms(1), of Number e] show ?thesis
    by (auto simp add: bookOf_Some_iff tree_wellFormed_def bookInvariant_def
        bidsComparator_side asksComparator_side sideInvariant_tree_updates)
qed

lemma merge_applyAll_invariant:
  "orderBooks m pair = Some ob \<Longrightarrow> bookInvariant ob \<Longrightarrow>
   \<forall>x\<in>set ops. merge_wellFormed Number x \<Longrightarrow> n \<le> length ops \<Longrightarrow>
     \<exists>ob1. bookOf (merge_applyAll Number pair (take n ops) m) pair = Some ob1
       \<and> bookInvariant ob1"
proof (induction ops arbitrary: m ob n)
  case Nil
  then show ?case by (simp add: bookOf_def)
next
  case (Cons x xs)
  show ?case
  proof (cases n)
    case 0
    with Cons.prems show ?thesis by (simp add: bookOf_def)
  next
    case (Suc k)
    from Cons.prems(3) have wx: "merge_wellFormed Number x"
      and wxs: "\<forall>x\<in>set xs. merge_wellFormed Number x" by simp_all
    from merge_apply_invariant [OF Cons.prems(1,2) wx]
    obtain m1 ob1 where s: "merge_apply Number pair x m = Inr m1"
      "orderBooks m1 pair = Some ob1" "bookInvariant ob1" by blast
    from Suc Cons.prems(4) have "k \<le> length xs" by simp
    from Cons.IH [OF s(2,3) wxs this] s(1) Suc show ?thesis by simp
  qed
qed

lemma tree_applyAll_invariant:
  "orderBooks t pair = Some ob \<Longrightarrow> bookInvariant ob \<Longrightarrow>
   \<forall>x\<in>set ops. tree_wellFormed Number x \<Longrightarrow> n \<le> length ops \<Longrightarrow>
     \<exists>ob1. bookOf (tree_applyAll Number pair (take n ops) t) pair = Some ob1
       \<and> bookInvariant ob1"
proof (induction ops arbitrary: t ob n)
  case Nil
  then show ?case by (simp add: bookOf_def)
next
  case (Cons x xs)
  show ?case
  proof (cases n)
    case 0
    with Cons.prems show ?thesis by (simp add: bookOf_def)
  next
    case (Suc k)
    from Cons.prems(3) have wx: "tree_wellFormed Number x"
      and wxs: "\<forall>x\<in>set xs. tree_wellFormed Number x" by simp_all
    from tree_apply_invariant [OF Cons.prems(1,2) wx]
    obtain t1 ob1 where s: "tree_apply Number pair x t = Inr t1"
      "orderBooks t1 pair = Some ob1" "bookInvariant ob1" by blast
    from Suc Cons.prems(4) have "k \<le> length xs" by simp
    from Cons.IH [OF s(2,3) wxs this] s(1) Suc show ?thesis by simp
  qed
qed

text \<open>Unfolding rules for running the managers on concrete messages.\<close>

lemmas merge_eval =
  bookOf_def merge_processSnapshot_def merge_processDelta_def orderBooks_initialize
  hasEntries_def entries_def toLevels_def mergeSortedUpdates_merge_list Let_def better_def

lemmas tree_eval =
  bookOf_def tree_processSnapshot_def tree_processDelta_def orderBooks_initialize
  hasEntries_def entries_def toLevels_def tree_load_def tree_update_def probe_def
  bidsComparator_def asksComparator_def Let_def

lemmas invariant_eval =
  bookInvariant_def sideInvariant_def rankSorted_def better_def

text \<open>
  Neither \<^verbatim>\<open>processSnapshot\<close> checks its input: a snapshot level of size 0 is stored by both
  strategies, and the array strategy keeps an unsorted snapshot unsorted. Neither
  \<^verbatim>\<open>processDelta\<close> checks the batch: the array strategy stores a price twice when the
  batch repeats it, and a negative size is stored like a positive one.
\<close>

theorem invariant_counterexample:
  "bookOf (merge_processSnapshot id ''ETHUSDT'' \<lparr>ev_b = Some [(100, 0)], ev_a = None\<rparr>
      (initialize [''ETHUSDT''] merge_new)) ''ETHUSDT''
     = Some \<lparr>bids = [(100, 0)], asks = []\<rparr>
   \<and> bookOf (tree_processSnapshot id ''ETHUSDT'' \<lparr>ev_b = Some [(100, 0)], ev_a = None\<rparr>
      (initialize [''ETHUSDT''] tree_new)) ''ETHUSDT''
     = Some \<lparr>bids = [(100, 0)], asks = []\<rparr>
   \<and> \<not> bookInvariant \<lparr>bids = [(100, 0)], asks = []\<rparr>
   \<and> bookOf (merge_processSnapshot id ''ETHUSDT''
      \<lparr>ev_b = None, ev_a = Some [(102, 1), (101, 1)]\<rparr>
      (initialize [''ETHUSDT''] merge_new)) ''ETHUSDT''
     = Some \<lparr>bids = [], asks = [(102, 1), (101, 1)]\<rparr>
   \<and> \<not> bookInvariant \<lparr>bids = [], asks = [(102, 1), (101, 1)]\<rparr>
   \<and> bookOf (merge_processDelta id ''ETHUSDT'' \<lparr>ev_b = Some [(100, 5), (100, 6)], ev_a = None\<rparr>
      (initialize [''ETHUSDT''] merge_new)) ''ETHUSDT''
     = Some \<lparr>bids = [(100, 5), (100, 6)], asks = []\<rparr>
   \<and> \<not> bookInvariant \<lparr>bids = [(100, 5), (100, 6)], asks = []\<rparr>
   \<and> bookOf (tree_processDelta id ''ETHUSDT'' \<lparr>ev_b = Some [(100, - 1)], ev_a = None\<rparr>
      (initialize [''ETHUSDT''] tree_new)) ''ETHUSDT''
     = Some \<lparr>bids = [(100, - 1)], asks = []\<rparr>
   \<and> \<not> bookInvariant \<lparr>bids = [(100, - 1)], asks = []\<rparr>"
  by (simp add: merge_eval tree_eval invariant_eval)

text \<open>
  Claim C1, as the code has it. Start from a book that satisfies the invariant (the empty
  book after \<^verbatim>\<open>initialize\<close> does) and apply any sequence of snapshots and deltas in which
  every snapshot size is positive and every delta size is not negative, and, for the
  array strategy, every list is strictly sorted by rank. Then every operation returns,
  and after each of them every side has strictly monotonic prices in rank order and
  strictly positive sizes; so no level of size 0 is stored.
\<close>

theorem invariant_preserved:
  assumes "orderBooks m pair = Some ob" and "bookInvariant ob"
    and "orderBooks t pair = Some tob" and "bookInvariant tob"
  shows "((\<forall>x\<in>set ops. merge_wellFormed Number x) \<longrightarrow>
            (\<forall>n\<le>length ops. \<exists>ob1.
               bookOf (merge_applyAll Number pair (take n ops) m) pair = Some ob1
               \<and> bookInvariant ob1))
       \<and> ((\<forall>x\<in>set ops. tree_wellFormed Number x) \<longrightarrow>
            (\<forall>n\<le>length ops. \<exists>ob1.
               bookOf (tree_applyAll Number pair (take n ops) t) pair = Some ob1
               \<and> bookInvariant ob1))"
  using merge_applyAll_invariant [OF assms(1,2)] tree_applyAll_invariant [OF assms(3,4)]
  by blast

theorem invariant_preserved_witness:
  "orderBooks (initialize [''ETHUSDT''] merge_new) ''ETHUSDT'' = Some \<lparr>bids = [], asks = []\<rparr>
   \<and> orderBooks (initialize [''ETHUSDT''] tree_new) ''ETHUSDT'' = Some \<lparr>bids = [], asks = []\<rparr>
   \<and> bookInvariant \<lparr>bids = [], asks = []\<rparr>
   \<and> list_all (merge_wellFormed id) [Snapshot exampleSnapshot, Delta exampleDelta]
   \<and> list_all (tree_wellFormed id) [Snapshot exampleSnapshot, Delta exampleDelta]
   \<and> bookOf (merge_applyAll id ''ETHUSDT'' [Snapshot exampleSnapshot, Delta exampleDelta]
        (initialize [''ETHUSDT''] merge_new)) ''ETHUSDT''
      = Some \<lparr>bids = [(99, 3), (98, 7)], asks = [(101, 4), (102, 2)]\<rparr>
   \<and> bookOf (tree_applyAll id ''ETHUSDT'' [Snapshot exampleSnapshot, Delta exampleDelta]
        (initialize [''ETHUSDT''] tree_new)) ''ETHUSDT''
      = Some \<lparr>bids = [(99, 3), (98, 7)], asks = [(101, 4), (102, 2)]\<rparr>
   \<and> bookInvariant \<lparr>bids = [(99, 3), (98, 7)], asks = [(101, 4), (102, 2)]\<rparr>"
proof -
  let ?ops = "[Snapshot exampleSnapshot, Delta exampleDelta]"
  have h1: "orderBooks (initialize [''ETHUSDT''] merge_new) ''ETHUSDT''
      = Some \<lparr>bids = [], asks = []\<rparr>"
    by (simp add: orderBooks_initialize)
  have h2: "orderBooks (initialize [''ETHUSDT''] tree_new) ''ETHUSDT''
      = Some \<lparr>bids = [], asks = []\<rparr>"
    by (simp add: orderBooks_initialize)
  have h3: "bookInvariant \<lparr>bids = [], asks = []\<rparr>"
    by (simp add: bookInvariant_def)
  have w1: "\<forall>x\<in>set ?ops. merge_wellFormed id x"
    by (simp add: merge_wellFormed_def exampleSnapshot_def exampleDelta_def entries_def
        toLevels_def sideInvariant_def rankSorted_def better_def)
  have w2: "\<forall>x\<in>set ?ops. tree_wellFormed id x"
    by (simp add: tree_wellFormed_def exampleSnapshot_def exampleDelta_def entries_def
        toLevels_def)
  have e1: "bookOf (merge_applyAll id ''ETHUSDT'' ?ops (initialize [''ETHUSDT''] merge_new))
      ''ETHUSDT'' = Some \<lparr>bids = [(99, 3), (98, 7)], asks = [(101, 4), (102, 2)]\<rparr>"
    by (simp add: merge_eval exampleSnapshot_def exampleDelta_def)
  have e2: "bookOf (tree_applyAll id ''ETHUSDT'' ?ops (initialize [''ETHUSDT''] tree_new))
      ''ETHUSDT'' = Some \<lparr>bids = [(99, 3), (98, 7)], asks = [(101, 4), (102, 2)]\<rparr>"
    by (simp add: tree_eval exampleSnapshot_def exampleDelta_def)
  note inst = invariant_preserved [where Number = id and ops = ?ops, OF h1 h3 h2 h3]
  from inst w1
  have "\<forall>n\<le>length ?ops. \<exists>ob1. bookOf (merge_applyAll id ''ETHUSDT'' (take n ?ops)
      (initialize [''ETHUSDT''] merge_new)) ''ETHUSDT'' = Some ob1 \<and> bookInvariant ob1"
    by blast
  then have "\<exists>ob1. bookOf (merge_applyAll id ''ETHUSDT'' (take (length ?ops) ?ops)
      (initialize [''ETHUSDT''] merge_new)) ''ETHUSDT'' = Some ob1 \<and> bookInvariant ob1"
    by blast
  with e1 have "bookInvariant \<lparr>bids = [(99, 3), (98, 7)], asks = [(101, 4), (102, 2)]\<rparr>"
    by simp
  with h1 h2 h3 w1 w2 e1 e2 show ?thesis
    by (simp add: list_all_iff)
qed

section \<open>Agreement of the two strategies\<close>

lemma deltas_agree:
  "orderBooks m pair = Some ob \<Longrightarrow> orderBooks t pair = Some ob \<Longrightarrow>
   rankSorted False (bids ob) \<Longrightarrow> rankSorted True (asks ob) \<Longrightarrow>
   \<forall>d\<in>set ds. sortedEvent Number d \<Longrightarrow>
     \<exists>ob1. bookOf (merge_applyAll Number pair (map Delta ds) m) pair = Some ob1
       \<and> bookOf (tree_applyAll Number pair (map Delta ds) t) pair = Some ob1"
proof (induction ds arbitrary: m t ob)
  case Nil
  then show ?case by (simp add: bookOf_def)
next
  case (Cons d ds)
  let ?B = "toLevels Number (entries (ev_b d))" and ?A = "toLevels Number (entries (ev_a d))"
  let ?ob1 = "\<lparr>bids = mergeSortedUpdates (bids ob) ?B False,
              asks = mergeSortedUpdates (asks ob) ?A True\<rparr>"
  from Cons.prems(5) have sb: "rankSorted False ?B" and sa: "rankSorted True ?A"
    and rest: "\<forall>d\<in>set ds. sortedEvent Number d"
    by (simp_all add: sortedEvent_def)
  have tb: "foldl (tree_update Number bidsComparator) (bids ob) (entries (ev_b d)) =
      mergeSortedUpdates (bids ob) ?B False"
    unfolding bidsComparator_side using Cons.prems(3) sb by (rule tree_updates_merge)
  have ta: "foldl (tree_update Number asksComparator) (asks ob) (entries (ev_a d)) =
      mergeSortedUpdates (asks ob) ?A True"
    unfolding asksComparator_side using Cons.prems(4) sa by (rule tree_updates_merge)
  from bookOf_merge_processDelta [OF Cons.prems(1), of Number d]
  obtain m1 where m1: "merge_processDelta Number pair d m = Inr m1"
    "orderBooks m1 pair = Some ?ob1"
    by (auto simp: bookOf_Some_iff)
  from bookOf_tree_processDelta [OF Cons.prems(2), of Number d] tb ta
  obtain t1 where t1: "tree_processDelta Number pair d t = Inr t1"
    "orderBooks t1 pair = Some ?ob1"
    by (auto simp: bookOf_Some_iff)
  have s1: "rankSorted False (bids ?ob1)" "rankSorted True (asks ?ob1)"
    using Cons.prems(3,4) sb sa
    by (simp_all add: mergeSortedUpdates_merge_list rankSorted_merge_list)
  from Cons.IH [OF m1(2) t1(2) s1 rest] m1(1) t1(1) show ?case by simp
qed

text \<open>
  The strategies part on a snapshot that is not sorted by rank, and on a delta batch that
  names a price twice.
\<close>

theorem strategies_differ_counterexample:
  "bookOf (merge_applyAll id ''ETHUSDT''
      [Snapshot \<lparr>ev_b = None, ev_a = Some [(102, 1), (101, 1)]\<rparr>,
       Delta \<lparr>ev_b = None, ev_a = Some [(101, 0)]\<rparr>]
      (initialize [''ETHUSDT''] merge_new)) ''ETHUSDT''
     = Some \<lparr>bids = [], asks = [(102, 1), (101, 1)]\<rparr>
   \<and> bookOf (tree_applyAll id ''ETHUSDT''
      [Snapshot \<lparr>ev_b = None, ev_a = Some [(102, 1), (101, 1)]\<rparr>,
       Delta \<lparr>ev_b = None, ev_a = Some [(101, 0)]\<rparr>]
      (initialize [''ETHUSDT''] tree_new)) ''ETHUSDT''
     = Some \<lparr>bids = [], asks = [(102, 1)]\<rparr>
   \<and> set [(102 :: rat, 1 :: rat), (101, 1)] \<noteq> set [(102, 1)]
   \<and> bookOf (merge_applyAll id ''ETHUSDT''
      [Snapshot \<lparr>ev_b = Some [], ev_a = Some []\<rparr>,
       Delta \<lparr>ev_b = Some [(100, 5), (100, 0)], ev_a = None\<rparr>]
      (initialize [''ETHUSDT''] merge_new)) ''ETHUSDT''
     = Some \<lparr>bids = [(100, 5)], asks = []\<rparr>
   \<and> bookOf (tree_applyAll id ''ETHUSDT''
      [Snapshot \<lparr>ev_b = Some [], ev_a = Some []\<rparr>,
       Delta \<lparr>ev_b = Some [(100, 5), (100, 0)], ev_a = None\<rparr>]
      (initialize [''ETHUSDT''] tree_new)) ''ETHUSDT''
     = Some \<lparr>bids = [], asks = []\<rparr>"
  by (simp add: merge_eval tree_eval)

text \<open>
  Claim C2, as the code has it. For an initial snapshot whose lists are strictly sorted by
  rank and any sequence of delta batches whose lists are strictly sorted by rank,
  applying the snapshot and then the deltas returns in both strategies, with the same
  sequence of levels on the bid side and on the ask side, hence the same sets of
  (price, size) pairs.
\<close>

theorem strategies_agree:
  assumes "orderBooks m pair = Some ob" and "orderBooks t pair = Some tob"
    and "sortedEvent Number s" and "\<forall>d\<in>set ds. sortedEvent Number d"
  shows "\<exists>obm obt.
           bookOf (merge_applyAll Number pair (Snapshot s # map Delta ds) m) pair = Some obm
         \<and> bookOf (tree_applyAll Number pair (Snapshot s # map Delta ds) t) pair = Some obt
         \<and> set (bids obm) = set (bids obt) \<and> set (asks obm) = set (asks obt)
         \<and> obm = obt"
proof -
  let ?B = "toLevels Number (entries (ev_b s))" and ?A = "toLevels Number (entries (ev_a s))"
  let ?ob1 = "\<lparr>bids = ?B, asks = ?A\<rparr>"
  from assms(3) have sb: "rankSorted False ?B" and sa: "rankSorted True ?A"
    by (simp_all add: sortedEvent_def)
  from bookOf_merge_processSnapshot [OF assms(1), of Number s]
  obtain m1 where m1: "merge_processSnapshot Number pair s m = Inr m1"
    "orderBooks m1 pair = Some ?ob1"
    by (auto simp: bookOf_Some_iff)
  have "tree_load Number bidsComparator (entries (ev_b s)) = ?B"
    "tree_load Number asksComparator (entries (ev_a s)) = ?A"
    using sb sa by (simp_all add: bidsComparator_side asksComparator_side tree_load_sorted)
  with bookOf_tree_processSnapshot [OF assms(2), of Number s]
  obtain t1 where t1: "tree_processSnapshot Number pair s t = Inr t1"
    "orderBooks t1 pair = Some ?ob1"
    by (auto simp: bookOf_Some_iff)
  from sb sa have s1: "rankSorted False (bids ?ob1)" "rankSorted True (asks ?ob1)"
    by simp_all
  from deltas_agree [OF m1(2) t1(2) s1 assms(4)] m1(1) t1(1) show ?thesis
    by auto
qed

theorem strategies_agree_witness:
  "orderBooks (initialize [''ETHUSDT''] merge_new) ''ETHUSDT'' = Some \<lparr>bids = [], asks = []\<rparr>
   \<and> orderBooks (initialize [''ETHUSDT''] tree_new) ''ETHUSDT'' = Some \<lparr>bids = [], asks = []\<rparr>
   \<and> sortedEvent id exampleSnapshot
   \<and> list_all (sortedEvent id) [exampleDelta]
   \<and> bookOf (merge_applyAll id ''ETHUSDT'' (Snapshot exampleSnapshot # map Delta [exampleDelta])
        (initialize [''ETHUSDT''] merge_new)) ''ETHUSDT''
      = bookOf (tree_applyAll id ''ETHUSDT'' (Snapshot exampleSnapshot # map Delta [exampleDelta])
        (initialize [''ETHUSDT''] tree_new)) ''ETHUSDT''
   \<and> bookOf (merge_applyAll id ''ETHUSDT'' (Snapshot exampleSnapshot # map Delta [exampleDelta])
        (initialize [''ETHUSDT''] merge_new)) ''ETHUSDT''
      = Some \<lparr>bids = [(99, 3), (98, 7)], asks = [(101, 4), (102, 2)]\<rparr>"
proof -
  have h1: "orderBooks (initialize [''ETHUSDT''] merge_new) ''ETHUSDT''
      = Some \<lparr>bids = [], asks = []\<rparr>"
    by (simp add: orderBooks_initialize)
  have h2: "orderBooks (initialize [''ETHUSDT''] tree_new) ''ETHUSDT''
      = Some \<lparr>bids = [], asks = []\<rparr>"
    by (simp add: orderBooks_initialize)
  have h3: "sortedEvent id exampleSnapshot"
    by (simp add: sortedEvent_def exampleSnapshot_def entries_def toLevels_def rankSorted_def
        better_def)
  have h4: "\<forall>d\<in>set [exampleDelta]. sortedEvent id d"
    by (simp add: sortedEvent_def exampleDelta_def entries_def toLevels_def rankSorted_def
        better_def)
  have e1: "bookOf (merge_applyAll id ''ETHUSDT''
      (Snapshot exampleSnapshot # map Delta [exampleDelta])
      (initialize [''ETHUSDT''] merge_new)) ''ETHUSDT''
      = Some \<lparr>bids = [(99, 3), (98, 7)], asks = [(101, 4), (102, 2)]\<rparr>"
    by (simp add: merge_eval exampleSnapshot_def exampleDelta_def)
  from strategies_agree [OF h1 h2 h3 h4]
  have "bookOf (merge_applyAll id ''ETHUSDT''
      (Snapshot exampleSnapshot # map Delta [exampleDelta])
        (initialize [''ETHUSDT''] merge_new)) ''ETHUSDT''
      = bookOf (tree_applyAll id ''ETHUSDT''
      (Snapshot exampleSnapshot # map Delta [exampleDelta])
        (initialize [''ETHUSDT''] tree_new)) ''ETHUSDT''"
    by auto
  with h1 h2 h3 h4 e1 show ?thesis
    by (simp add: list_all_iff)
qed

end
